theory Spec2Isabelle
  imports Main "HOL-Library.Word"
begin

unbundle bit_operations_syntax

section \<open>The traffic engine of tcpkali: data model\<close>

text \<open>
  The development follows \<^verbatim>\<open>tcpkali_engine.c\<close>. Every worker thread owns one
  \<^verbatim>\<open>struct loop_arguments\<close> and the connections it has opened; nothing but the
  read-only address pool and the control pipe is shared between threads, so one worker
  is modelled on its own, as a state that its event loop transforms callback by callback.
  What the operating system answers to a system call (\<^verbatim>\<open>read\<close>, \<^verbatim>\<open>socket\<close>,
  \<^verbatim>\<open>fcntl\<close>, \<^verbatim>\<open>connect\<close>, \<^verbatim>\<open>write\<close>) is an argument of the callback that makes
  the call; what a callback prints, writes or closes is returned as a list of effects.

  Machine integers: \<^verbatim>\<open>unsigned int address_offset\<close> is a 32-bit word, and
  \<^verbatim>\<open>size_t\<close>, \<^verbatim>\<open>off_t\<close> and \<^verbatim>\<open>ssize_t\<close> are 64-bit words (LP64; \<^verbatim>\<open>off_t\<close> and
  \<^verbatim>\<open>ssize_t\<close> are kept in their two's complement representation). The
  \<^verbatim>\<open>long\<close> health counters are integers: they only ever count up by one from zero, and
  overflowing a signed \<^verbatim>\<open>long\<close> has no defined behaviour in C.
\<close>

record sockaddr =
  sa_family :: nat
  sa_data :: string

text \<open>
  Modelled from the spec: \<^verbatim>\<open>struct addresses\<close>, which is declared in \<^verbatim>\<open>tcpkali.h\<close>,
  a header that is not among the sources. The specification describes the address pool as
  an ordered sequence of remote socket addresses of length \<open>N\<close>; the engine reads its
  members \<^verbatim>\<open>addrs\<close> (the array) and \<^verbatim>\<open>n_addrs\<close> (its length, whatever integer type
  the header gives it).
\<close>

record addresses =
  addrs :: "sockaddr list"
  n_addrs :: nat

record remote_stats =
  connection_attempts :: int
  connection_failures :: int

text \<open>
  Modelled from the spec: the type \<^verbatim>\<open>atomic_t\<close>, which is declared in
  \<^verbatim>\<open>tcpkali_atomic.h\<close>, a header that is not among the sources. The specification
  calls the count of open connections an integer; the engine increments it, decrements
  it and prints it with \<^verbatim>\<open>%d\<close>.
\<close>

type_synonym atomic_t = int

text \<open>\<^verbatim>\<open>thread_flags\<close> is an enumeration used as a bit set.\<close>

record loop_arguments =
  addresses :: addresses
  sample_data :: string
  sample_data_size :: "64 word"
  remote_stats :: "remote_stats list"
  address_offset :: "32 word"
  control_pipe :: int
  thread_no :: int
  total_data_transmitted :: "64 word"
  thread_flags :: "32 word"
  open_connections :: atomic_t

definition THREAD_TERMINATING :: "32 word" where
  "THREAD_TERMINATING = 1"

text \<open>
  A connection points into two arrays of its worker, \<^verbatim>\<open>&addresses.addrs[off]\<close> and
  \<^verbatim>\<open>&remote_stats[off]\<close>; the pointers are kept as the index \<open>off\<close>. The file
  descriptor is the one its watcher was initialised with.
\<close>

record connection =
  write_offset :: "64 word"
  data_transmitted :: "64 word"
  remote_address :: nat
  remote_stats_ptr :: nat
  watcher_fd :: int

section \<open>Address selection\<close>

text \<open>The test of the scan loop: more than ten attempts, and every one of them failed.\<close>

definition skip_eligible :: "remote_stats \<Rightarrow> bool" where
  "skip_eligible rs \<longleftrightarrow>
     connection_attempts rs > 10 \<and> connection_failures rs = connection_attempts rs"

text \<open>
  The \<^verbatim>\<open>for\<close> loop of \<^verbatim>\<open>pick_remote_address\<close>. The first argument counts the
  iterations that are left (\<^verbatim>\<open>n_addrs - attempts\<close>), the second is the local
  \<^verbatim>\<open>off\<close>. Each iteration reads the cursor, increments it (an \<^verbatim>\<open>unsigned int\<close>,
  so modulo \<open>2^32\<close>), and either goes on (\<^verbatim>\<open>continue\<close>) or leaves (\<^verbatim>\<open>break\<close>).
  The counter \<^verbatim>\<open>attempts\<close> and \<^verbatim>\<open>off\<close> are of type \<^verbatim>\<open>int\<close>; they are natural
  numbers here, which is what they hold for any pool of at most \<open>2^31 - 1\<close> addresses.
\<close>

fun pick_scan :: "nat \<Rightarrow> nat \<Rightarrow> loop_arguments \<Rightarrow> nat \<times> loop_arguments" where
  "pick_scan 0 off largs = (off, largs)"
| "pick_scan (Suc k) off largs =
     (let off' = unat (address_offset largs) mod n_addrs (addresses largs);
          largs' = largs\<lparr>address_offset := address_offset largs + 1\<rparr>;
          rs = remote_stats largs ! off'
      in if skip_eligible rs then pick_scan k off' largs' else (off', largs'))"

text \<open>
  \<^verbatim>\<open>pick_remote_address\<close> returns \<^verbatim>\<open>&addresses.addrs[off]\<close> and stores
  \<^verbatim>\<open>&remote_stats[off]\<close> through its second parameter: the model returns \<open>off\<close>.
\<close>

definition pick_remote_address :: "loop_arguments \<Rightarrow> nat \<times> loop_arguments" where
  "pick_remote_address largs = pick_scan (n_addrs (addresses largs)) 0 largs"

text \<open>The \<open>j\<close>-th candidate of a scan that starts at the cursor of \<open>largs\<close>.\<close>

definition candidate :: "loop_arguments \<Rightarrow> nat \<Rightarrow> nat" where
  "candidate largs j =
     unat (address_offset largs + of_nat j) mod n_addrs (addresses largs)"

section \<open>The worker and its environment\<close>

text \<open>
  Error numbers: the three the engine tests for by name, and any other one.
\<close>

datatype errno = ENFILE | EINPROGRESS | EPIPE | Errno nat

text \<open>
  The lines written to \<^verbatim>\<open>stderr\<close>, by their format string and arguments. Addresses
  are named by their index in the pool.
\<close>

datatype message =
    Using_available_CPUs int
  | Reading_from_control_channel int
  | Unknown_operation char
  | System_socket_table_is_full int
  | Connection_is_not_done nat errno
  | Connection_closed_by nat

text \<open>
  What a callback does to the outside world: a line on \<^verbatim>\<open>stderr\<close>, a \<^verbatim>\<open>close\<close> of
  a descriptor, or the bytes a successful \<^verbatim>\<open>write\<close> handed to a socket.
\<close>

datatype effect = Stderr message | Close int | Write int string

text \<open>
  The ways a call does not return: \<^verbatim>\<open>exit(1)\<close> after its message, a failed
  \<^verbatim>\<open>assert\<close>, and the dereference of \<^verbatim>\<open>&remote_stats[0]\<close> in a table of length
  zero, which has no defined behaviour.
\<close>

datatype error = Exit message | Assertion_failed | Out_of_bounds

text \<open>
  The answers of the operating system to one run of \<^verbatim>\<open>control_cb\<close>: the byte read from
  the pipe (\<open>None\<close> when \<^verbatim>\<open>read\<close> does not return 1), the result of \<^verbatim>\<open>socket\<close>
  (an error number or the descriptor), of \<^verbatim>\<open>fcntl\<close>, of \<^verbatim>\<open>connect\<close> (\<open>None\<close>
  for 0, an error number for -1) and of \<^verbatim>\<open>sysconf(_SC_OPEN_MAX)\<close>.
\<close>

record syscalls =
  sys_read :: "char option"
  sys_socket :: "errno + int"
  sys_fcntl :: int
  sys_connect :: "errno option"
  sys_open_max :: int

text \<open>
  The event loop of a worker, as far as the engine sees it: the arguments it carries as
  user data (\<^verbatim>\<open>ev_userdata\<close>), whether the control watcher is started, and the
  connections whose write watcher is started. A connection is named by its position in
  that list.
\<close>

record worker =
  userdata :: loop_arguments
  control_watcher :: bool
  conns :: "connection list"

text \<open>
  \<^verbatim>\<open>max_open_files\<close> returns \<^verbatim>\<open>int\<close>: the \<^verbatim>\<open>long\<close> that
  \<^verbatim>\<open>sysconf(_SC_OPEN_MAX)\<close> answers is converted by the \<^verbatim>\<open>return\<close>, which keeps
  its low 32 bits, read as a signed number.
\<close>

definition max_open_files :: "syscalls \<Rightarrow> int" where
  "max_open_files sys = sint (word_of_int (sys_open_max sys) :: 32 word)"

section \<open>Opening a connection\<close>

text \<open>
  \<^verbatim>\<open>remote_stats->connection_attempts++\<close> and
  \<^verbatim>\<open>remote_stats->connection_failures++\<close>, for the pointer \<^verbatim>\<open>&remote_stats[off]\<close>.
\<close>

definition count_attempt :: "nat \<Rightarrow> loop_arguments \<Rightarrow> loop_arguments" where
  "count_attempt off la =
     la\<lparr>remote_stats := (remote_stats la)
          [off := (remote_stats la ! off)
             \<lparr>connection_attempts := connection_attempts (remote_stats la ! off) + 1\<rparr>]\<rparr>"

definition count_failure :: "nat \<Rightarrow> loop_arguments \<Rightarrow> loop_arguments" where
  "count_failure off la =
     la\<lparr>remote_stats := (remote_stats la)
          [off := (remote_stats la ! off)
             \<lparr>connection_failures := connection_failures (remote_stats la ! off) + 1\<rparr>]\<rparr>"

text \<open>
  The tail of \<^verbatim>\<open>start_new_connection\<close>, reached when \<^verbatim>\<open>connect\<close> returns 0 or
  fails with \<^verbatim>\<open>EINPROGRESS\<close>: a zeroed connection for the socket, with its two
  pointers set, one more open connection, and its write watcher started.
\<close>

definition register_connection :: "nat \<Rightarrow> int \<Rightarrow> worker \<Rightarrow> worker" where
  "register_connection off sockfd w =
     w\<lparr>userdata := (userdata w)\<lparr>open_connections := open_connections (userdata w) + 1\<rparr>,
       conns := conns w @
         [\<lparr>write_offset = 0, data_transmitted = 0, remote_address = off,
           remote_stats_ptr = off, watcher_fd = sockfd\<rparr>]\<rparr>"

text \<open>
  The pool is not empty and the health table has one entry per address, as
  \<^verbatim>\<open>start_engine\<close> allocates it.
\<close>

definition table_ok :: "loop_arguments \<Rightarrow> bool" where
  "table_ok la \<longleftrightarrow>
     0 < n_addrs (addresses la) \<and> length (remote_stats la) = n_addrs (addresses la)"

definition start_new_connection :: "syscalls \<Rightarrow> worker \<Rightarrow> error + effect list \<times> worker" where
  "start_new_connection sys w =
     (let (off, la) = pick_remote_address (userdata w) in
      if length (remote_stats la) \<le> off then Inl Out_of_bounds
      else
        let la1 = count_attempt off la
        in case sys_socket sys of
             Inl e \<Rightarrow>
               (if e = ENFILE
                then Inl (Exit (System_socket_table_is_full (max_open_files sys)))
                else Inr ([], w\<lparr>userdata := la1\<rparr>))
           | Inr sockfd \<Rightarrow>
               if sys_fcntl sys = - 1 then Inl Assertion_failed
               else
                 (case sys_connect sys of
                    Some e \<Rightarrow>
                      if e = EINPROGRESS
                      then Inr ([], register_connection off sockfd (w\<lparr>userdata := la1\<rparr>))
                      else
                        let la2 = count_failure off la1
                        in Inr ((if connection_failures (remote_stats la2 ! off) = 1
                                 then [Stderr (Connection_is_not_done off e)] else [])
                                @ [Close sockfd],
                                w\<lparr>userdata := la2\<rparr>)
                  | None \<Rightarrow> Inr ([], register_connection off sockfd (w\<lparr>userdata := la1\<rparr>))))"

section \<open>The control channel\<close>

definition control_cb :: "syscalls \<Rightarrow> worker \<Rightarrow> error + effect list \<times> worker" where
  "control_cb sys w =
     (case sys_read sys of
        None \<Rightarrow> Inr ([Stderr (Reading_from_control_channel (thread_no (userdata w)))], w)
      | Some c \<Rightarrow>
          if c = CHR ''c'' then start_new_connection sys w
          else if c = CHR ''b''
          then Inr ([], w\<lparr>userdata := (userdata w)\<lparr>thread_flags :=
                                     thread_flags (userdata w) OR THREAD_TERMINATING\<rparr>,
                         control_watcher := False\<rparr>)
          else Inr ([Stderr (Unknown_operation c)], w))"

section \<open>Pumping the payload\<close>

text \<open>
  \<^verbatim>\<open>largest_contiguous_chunk\<close> has three out-parameters; the model returns them in the
  order \<^verbatim>\<open>*current_offset\<close>, \<^verbatim>\<open>*position\<close> (as an offset into
  \<^verbatim>\<open>sample_data\<close>), \<^verbatim>\<open>*available_length\<close>. The subtraction is done in
  \<^verbatim>\<open>size_t\<close>, modulo \<open>2^64\<close>.
\<close>

definition largest_contiguous_chunk ::
  "loop_arguments \<Rightarrow> 64 word \<Rightarrow> 64 word \<times> 64 word \<times> 64 word" where
  "largest_contiguous_chunk la current_offset =
     (let size = sample_data_size la;
          available = size - current_offset
      in if available \<noteq> 0 then (current_offset, current_offset, available)
         else (0, 0, size))"

text \<open>
  \<^verbatim>\<open>close_connection\<close> stops the watcher and frees the connection: it leaves the list
  of started watchers.
\<close>

definition close_connection :: "nat \<Rightarrow> worker \<Rightarrow> worker" where
  "close_connection i w = w\<lparr>conns := take i (conns w) @ drop (Suc i) (conns w)\<rparr>"

definition EV_WRITE :: "32 word" where
  "EV_WRITE = 2"

text \<open>
  \<^verbatim>\<open>connection_cb\<close> for the watcher of connection \<open>i\<close>. The answer of \<^verbatim>\<open>write\<close> is
  an error number (for -1) or the number of bytes taken; it is looked at only where the
  code calls \<^verbatim>\<open>write\<close>.
\<close>

definition connection_cb ::
  "32 word \<Rightarrow> errno + 64 word \<Rightarrow> nat \<Rightarrow> worker \<Rightarrow> effect list \<times> worker" where
  "connection_cb revents sys_write i w =
     (let la = userdata w; conn = conns w ! i in
      if thread_flags la AND THREAD_TERMINATING \<noteq> 0
      then ([], close_connection i
                  (w\<lparr>userdata := la\<lparr>total_data_transmitted :=
                                        total_data_transmitted la + data_transmitted conn,
                                      open_connections := open_connections la - 1\<rparr>\<rparr>))
      else if revents AND EV_WRITE \<noteq> 0
      then
        let (off, position, available_length) = largest_contiguous_chunk la (write_offset conn);
            conn1 = conn\<lparr>write_offset := off\<rparr>
        in case sys_write of
             Inl e \<Rightarrow>
               if e = EPIPE
               then
                 let la1 = count_failure (remote_stats_ptr conn1) la
                 in ([Stderr (Connection_closed_by (remote_address conn1))],
                     close_connection i
                       (w\<lparr>userdata := la1\<lparr>total_data_transmitted :=
                                              total_data_transmitted la1 + data_transmitted conn1,
                                            open_connections := open_connections la1 - 1\<rparr>\<rparr>))
               else ([], w\<lparr>conns := (conns w)[i := conn1]\<rparr>)
           | Inr wrote \<Rightarrow>
               ([Write (watcher_fd conn1)
                   (take (unat wrote) (drop (unat position) (sample_data la)))],
                w\<lparr>conns := (conns w)[i := conn1\<lparr>write_offset := write_offset conn1 + wrote,
                                                data_transmitted := data_transmitted conn1 + wrote\<rparr>]\<rparr>)
      else ([], w))"

section \<open>The event loop\<close>

text \<open>
  An event is the readiness of one watcher together with what the system calls of its
  callback will answer. The loop only invokes the callback of a started watcher; an
  event for a watcher that is not started is never delivered.
\<close>

datatype event =
    Control_ready syscalls
  | Connection_ready nat "32 word" "errno + 64 word"

fun dispatch :: "event \<Rightarrow> worker \<Rightarrow> error + effect list \<times> worker" where
  "dispatch (Control_ready sys) w =
     (if control_watcher w then control_cb sys w else Inr ([], w))"
| "dispatch (Connection_ready i revents sys_write) w =
     (if i < length (conns w) then Inr (connection_cb revents sys_write i w) else Inr ([], w))"

fun ev_run :: "event list \<Rightarrow> worker \<Rightarrow> error + effect list \<times> worker" where
  "ev_run [] w = Inr ([], w)"
| "ev_run (e # es) w =
     (case dispatch e w of
        Inl err \<Rightarrow> Inl err
      | Inr (out, w') \<Rightarrow>
          (case ev_run es w' of
             Inl err \<Rightarrow> Inl err
           | Inr (out', w'') \<Rightarrow> Inr (out @ out', w'')))"

section \<open>Starting the engine\<close>

text \<open>
  The answers of the operating system to \<^verbatim>\<open>start_engine\<close>: the result and the two
  descriptors of \<^verbatim>\<open>pipe\<close>, the number of processors, and the result of the \<open>n\<close>-th
  \<^verbatim>\<open>pthread_create\<close>.
\<close>

record engine_syscalls =
  sys_pipe_rc :: int
  sys_pipe_fildes :: "int \<times> int"
  sys_ncpus :: int
  sys_pthread_create :: "nat \<Rightarrow> int"

definition number_of_cpus :: "engine_syscalls \<Rightarrow> int" where
  "number_of_cpus esys = sys_ncpus esys"

text \<open>The arguments of thread \<open>n\<close>: zeroed by \<^verbatim>\<open>calloc\<close>, then filled in.\<close>

definition loop_args :: "addresses \<Rightarrow> int \<Rightarrow> nat \<Rightarrow> loop_arguments" where
  "loop_args pool rd_pipe n =
     \<lparr>addresses = pool,
      sample_data = ''abc'',
      sample_data_size = 3,
      remote_stats = replicate (n_addrs pool)
                       \<lparr>connection_attempts = 0, connection_failures = 0\<rparr>,
      address_offset = of_nat n,
      control_pipe = rd_pipe,
      thread_no = int n,
      total_data_transmitted = 0,
      thread_flags = 0,
      open_connections = 0\<rparr>"

text \<open>
  \<^verbatim>\<open>start_engine\<close> returns the write end of the pipe; the model returns with it
  what it printed and the arguments of the threads it has created, in the order of
  creation. Its parameter \<^verbatim>\<open>addresses\<close> is called \<open>pool\<close>.
\<close>

definition start_engine ::
  "engine_syscalls \<Rightarrow> addresses \<Rightarrow> error + int \<times> effect list \<times> loop_arguments list" where
  "start_engine esys pool =
     (if sys_pipe_rc esys \<noteq> 0 then Inl Assertion_failed
      else
        let rd_pipe = fst (sys_pipe_fildes esys);
            wr_pipe = snd (sys_pipe_fildes esys);
            ncpus = number_of_cpus esys
        in if \<not> ncpus \<ge> 1 then Inl Assertion_failed
           else if \<exists>n \<in> set [0..<nat ncpus]. sys_pthread_create esys n \<noteq> 0
           then Inl Assertion_failed
           else Inr (wr_pipe, [Stderr (Using_available_CPUs ncpus)],
                     map (loop_args pool rd_pipe) [0..<nat ncpus]))"

text \<open>
  \<^verbatim>\<open>single_engine_loop_thread\<close> up to its call of \<^verbatim>\<open>ev_run\<close>: a new loop with the
  control watcher started and no connection.
\<close>

definition single_engine_loop_thread :: "loop_arguments \<Rightarrow> worker" where
  "single_engine_loop_thread la = \<lparr>userdata = la, control_watcher = True, conns = []\<rparr>"

section \<open>Example states\<close>

text \<open>A pool of three addresses, and the arguments \<^verbatim>\<open>start_engine\<close> gives thread 0.\<close>

definition pool3 :: addresses where
  "pool3 = \<lparr>addrs = [\<lparr>sa_family = 2, sa_data = ''10.0.0.1:80''\<rparr>,
                     \<lparr>sa_family = 2, sa_data = ''10.0.0.2:80''\<rparr>,
                     \<lparr>sa_family = 2, sa_data = ''10.0.0.3:80''\<rparr>],
            n_addrs = 3\<rparr>"

definition dead :: remote_stats where
  "dead = \<lparr>connection_attempts = 11, connection_failures = 11\<rparr>"

definition fresh :: remote_stats where
  "fresh = \<lparr>connection_attempts = 0, connection_failures = 0\<rparr>"

text \<open>The arguments of a worker with no address left alive.\<close>

definition la_dead :: loop_arguments where
  "la_dead = (loop_args pool3 5 0)
     \<lparr>remote_stats := [dead, dead, dead], address_offset := 4\<rparr>"

text \<open>
  Thread 0 of \<open>pool3\<close> as its loop starts, and the same worker after it has opened one
  connection (descriptor 7) and written the three bytes of the payload to it.
\<close>

definition w_start :: worker where
  "w_start = single_engine_loop_thread (loop_args pool3 5 0)"

definition w_sent3 :: worker where
  "w_sent3 =
     \<lparr>userdata = (loop_args pool3 5 0)
        \<lparr>remote_stats := [\<lparr>connection_attempts = 1, connection_failures = 0\<rparr>, fresh, fresh],
         address_offset := 1, open_connections := 1\<rparr>,
      control_watcher = True,
      conns = [\<lparr>write_offset = 3, data_transmitted = 3, remote_address = 0,
                remote_stats_ptr = 0, watcher_fd = 7\<rparr>]\<rparr>"

text \<open>A worker whose three addresses have all failed eleven times out of eleven.\<close>

definition w_dead :: worker where
  "w_dead = \<lparr>userdata = la_dead, control_watcher = True, conns = []\<rparr>"

text \<open>
  Answers of the operating system to \<^verbatim>\<open>control_cb\<close>: a \<^verbatim>\<open>'c'\<close> whose connect is in
  progress on descriptor 7; one whose connect is refused (\<^verbatim>\<open>ECONNREFUSED\<close>, 111); one
  whose \<^verbatim>\<open>socket\<close> fails with \<^verbatim>\<open>ENFILE\<close>; one whose \<^verbatim>\<open>socket\<close> fails with
  \<^verbatim>\<open>ENOBUFS\<close> (105); and a \<^verbatim>\<open>'b'\<close>.
\<close>

definition sys_connecting :: syscalls where
  "sys_connecting = \<lparr>sys_read = Some (CHR ''c''), sys_socket = Inr 7, sys_fcntl = 0,
     sys_connect = Some EINPROGRESS, sys_open_max = 1024\<rparr>"

definition sys_refused :: syscalls where
  "sys_refused = sys_connecting\<lparr>sys_connect := Some (Errno 111)\<rparr>"

definition sys_table_full :: syscalls where
  "sys_table_full = sys_connecting\<lparr>sys_socket := Inl ENFILE\<rparr>"

definition sys_no_buffers :: syscalls where
  "sys_no_buffers = sys_connecting\<lparr>sys_socket := Inl (Errno 105)\<rparr>"

definition sys_terminate :: syscalls where
  "sys_terminate = sys_connecting\<lparr>sys_read := Some (CHR ''b'')\<rparr>"

text \<open>
  An \<^verbatim>\<open>ENFILE\<close> on a system whose \<^verbatim>\<open>sysconf(_SC_OPEN_MAX)\<close> is \<open>2^32 + 5\<close>.
\<close>

definition sys_table_full_huge :: syscalls where
  "sys_table_full_huge = sys_table_full\<lparr>sys_open_max := 4294967301\<rparr>"

text \<open>
  Thread 0 of \<open>pool3\<close> with two connections open, on descriptors 7 and 8, to the first
  and the second address: three bytes sent on the first, five on the second. Then the
  same worker after a \<^verbatim>\<open>'b'\<close> and one more event on its first connection, and after
  a further event on the connection that is left.
\<close>

definition conn7 :: connection where
  "conn7 = \<lparr>write_offset = 3, data_transmitted = 3, remote_address = 0,
             remote_stats_ptr = 0, watcher_fd = 7\<rparr>"

definition conn8 :: connection where
  "conn8 = \<lparr>write_offset = 2, data_transmitted = 5, remote_address = 1,
             remote_stats_ptr = 1, watcher_fd = 8\<rparr>"

definition w_two :: worker where
  "w_two =
     \<lparr>userdata = (loop_args pool3 5 0)
        \<lparr>remote_stats := [\<lparr>connection_attempts = 1, connection_failures = 0\<rparr>,
                           \<lparr>connection_attempts = 1, connection_failures = 0\<rparr>, fresh],
         address_offset := 2, open_connections := 2\<rparr>,
      control_watcher = True,
      conns = [conn7, conn8]\<rparr>"

definition w_two_folded :: worker where
  "w_two_folded =
     \<lparr>userdata = (loop_args pool3 5 0)
        \<lparr>remote_stats := [\<lparr>connection_attempts = 1, connection_failures = 0\<rparr>,
                           \<lparr>connection_attempts = 1, connection_failures = 0\<rparr>, fresh],
         address_offset := 2, total_data_transmitted := 3, thread_flags := 1,
         open_connections := 1\<rparr>,
      control_watcher = False,
      conns = [conn8]\<rparr>"

definition w_two_done :: worker where
  "w_two_done =
     \<lparr>userdata = (loop_args pool3 5 0)
        \<lparr>remote_stats := [\<lparr>connection_attempts = 1, connection_failures = 0\<rparr>,
                           \<lparr>connection_attempts = 1, connection_failures = 0\<rparr>, fresh],
         address_offset := 2, total_data_transmitted := 8, thread_flags := 1,
         open_connections := 0\<rparr>,
      control_watcher = False,
      conns = []\<rparr>"

text \<open>The worker \<open>w_start\<close> after one connection that the peer closed before any byte.\<close>

definition w_broken :: worker where
  "w_broken =
     \<lparr>userdata = (loop_args pool3 5 0)
        \<lparr>remote_stats := [\<lparr>connection_attempts = 1, connection_failures = 1\<rparr>, fresh, fresh],
         address_offset := 1\<rparr>,
      control_watcher = True,
      conns = []\<rparr>"

text \<open>Answers to \<^verbatim>\<open>start_engine\<close> on a machine with two processors.\<close>

definition esys2 :: engine_syscalls where
  "esys2 = \<lparr>sys_pipe_rc = 0, sys_pipe_fildes = (5, 6), sys_ncpus = 2,
            sys_pthread_create = (\<lambda>n. 0)\<rparr>"

text \<open>The worker \<open>w_start\<close> after one \<^verbatim>\<open>'c'\<close>: one connection, nothing written yet.\<close>

definition w_open :: worker where
  "w_open =
     \<lparr>userdata = (loop_args pool3 5 0)
        \<lparr>remote_stats := [\<lparr>connection_attempts = 1, connection_failures = 0\<rparr>, fresh, fresh],
         address_offset := 1, open_connections := 1\<rparr>,
      control_watcher = True,
      conns = [\<lparr>write_offset = 0, data_transmitted = 0, remote_address = 0,
                remote_stats_ptr = 0, watcher_fd = 7\<rparr>]\<rparr>"

text \<open>
  A history that takes the cursor of thread 0 to the end of its range. The first and the
  third address of \<open>pool3\<close> refuse every connection; every \<^verbatim>\<open>socket\<close> call made for the
  second address fails with \<^verbatim>\<open>EMFILE\<close> (24), which counts an attempt and no failure.
  \<open>probing a0 a1 a2 c\<close> is the worker with those attempts counted and the cursor at \<open>c\<close>.
  After eleven rounds over the three addresses the first and the third are skip-eligible,
  every further \<^verbatim>\<open>'c'\<close> scans on to the second address, and the cursor moves by three.
\<close>

definition sys_emfile :: syscalls where
  "sys_emfile = sys_connecting\<lparr>sys_socket := Inl (Errno 24)\<rparr>"

definition probing :: "int \<Rightarrow> int \<Rightarrow> int \<Rightarrow> 32 word \<Rightarrow> worker" where
  "probing a0 a1 a2 c =
     \<lparr>userdata = (loop_args pool3 5 0)
        \<lparr>remote_stats := [\<lparr>connection_attempts = a0, connection_failures = a0\<rparr>,
                           \<lparr>connection_attempts = a1, connection_failures = 0\<rparr>,
                           \<lparr>connection_attempts = a2, connection_failures = a2\<rparr>],
         address_offset := c\<rparr>,
      control_watcher = True,
      conns = []\<rparr>"

definition round3 :: "event list" where
  "round3 = [Control_ready sys_refused, Control_ready sys_emfile, Control_ready sys_refused]"

definition wrap_history :: "event list" where
  "wrap_history = concat (replicate 11 round3)
     @ Control_ready sys_emfile # replicate 1431655753 (Control_ready sys_emfile)"

definition w_wrap :: worker where
  "w_wrap = probing 11 1431655765 11 4294967294"

section \<open>State predicates\<close>

text \<open>The test \<^verbatim>\<open>largs->thread_flags & THREAD_TERMINATING\<close> of \<^verbatim>\<open>connection_cb\<close>.\<close>

definition terminating :: "worker \<Rightarrow> bool" where
  "terminating w \<longleftrightarrow> thread_flags (userdata w) AND THREAD_TERMINATING \<noteq> 0"

text \<open>
  The number of live connections that point to entry \<open>p\<close> of the health table, and the
  invariant that ties the table to them: every failure recorded and every live
  connection stands for an attempt of its own.
\<close>

definition live :: "nat \<Rightarrow> connection list \<Rightarrow> nat" where
  "live p cs = length (filter (\<lambda>c. remote_stats_ptr c = p) cs)"

definition health_ok :: "remote_stats list \<Rightarrow> connection list \<Rightarrow> bool" where
  "health_ok tbl cs \<longleftrightarrow>
     (\<forall>p<length tbl.
        connection_failures (tbl ! p) + int (live p cs) \<le> connection_attempts (tbl ! p))"

text \<open>The count of open connections is the number of started write watchers.\<close>

definition counted :: "worker \<Rightarrow> bool" where
  "counted w \<longleftrightarrow> open_connections (userdata w) = int (length (conns w))"

text \<open>The payload and its length are the ones \<^verbatim>\<open>start_engine\<close> stores.\<close>

definition payload_fixed :: "worker \<Rightarrow> bool" where
  "payload_fixed w \<longleftrightarrow>
     sample_data (userdata w) = ''abc'' \<and> sample_data_size (userdata w) = 3"

section \<open>The byte stream of a connection\<close>

text \<open>The bytes handed to descriptor \<open>fd\<close> by the successful writes of an output, in order.\<close>

fun stream_of :: "int \<Rightarrow> effect list \<Rightarrow> string" where
  "stream_of fd [] = []"
| "stream_of fd (e # out) =
     (case e of Write fd' bytes \<Rightarrow> (if fd' = fd then bytes else []) | _ \<Rightarrow> [])
     @ stream_of fd out"

text \<open>The first \<open>n\<close> bytes of the payload repeated without end.\<close>

definition repeated :: "string \<Rightarrow> nat \<Rightarrow> string" where
  "repeated payload n = take n (concat (replicate n payload))"

text \<open>
  The \<open>n\<close> elements of \<open>p\<close> read cyclically from position \<open>s\<close> on.
\<close>

definition cyc :: "'a list \<Rightarrow> nat \<Rightarrow> nat \<Rightarrow> 'a list" where
  "cyc p s n = map (\<lambda>j. p ! ((s + j) mod length p)) [0..<n]"

text \<open>
  What \<^verbatim>\<open>write\<close> may answer: a sequence of write lengths for a connection at write
  offset \<open>off\<close>, each at most the length of the chunk it was offered.
\<close>

fun writes_within :: "loop_arguments \<Rightarrow> 64 word \<Rightarrow> 64 word list \<Rightarrow> bool" where
  "writes_within la off [] = True"
| "writes_within la off (n # ns) =
     (case largest_contiguous_chunk la off of
        (off', position, available_length) \<Rightarrow>
          n \<le> available_length \<and> writes_within la (off' + n) ns)"

section \<open>The startup interface of the specification\<close>

text \<open>
  Section 6 of the specification lists a payload buffer and its length among the startup
  inputs. This is \<^verbatim>\<open>start_engine\<close> as that sentence words it: the same engine, whose
  workers carry the payload and the length the caller passes.
\<close>

definition start_engine_with_payload ::
  "engine_syscalls \<Rightarrow> addresses \<Rightarrow> string \<Rightarrow> 64 word
     \<Rightarrow> error + int \<times> effect list \<times> loop_arguments list" where
  "start_engine_with_payload esys pool payload payload_size =
     (case start_engine esys pool of
        Inl e \<Rightarrow> Inl e
      | Inr (wr_pipe, out, las) \<Rightarrow>
          Inr (wr_pipe, out,
               map (\<lambda>la. la\<lparr>sample_data := payload, sample_data_size := payload_size\<rparr>) las))"

section \<open>Address selection: the scan\<close>

lemma pick_scan_numeral:
  "pick_scan (numeral n) off largs =
     (let off' = unat (address_offset largs) mod n_addrs (addresses largs);
          largs' = largs\<lparr>address_offset := address_offset largs + 1\<rparr>;
          rs = remote_stats largs ! off'
      in if skip_eligible rs then pick_scan (pred_numeral n) off' largs' else (off', largs'))"
  by (simp add: numeral_eq_Suc)

lemma replicate3: "replicate 3 x = [x, x, x]"
  by (simp add: numeral_3_eq_3)

lemma candidate_shift:
  "candidate (la\<lparr>address_offset := address_offset la + 1\<rparr>) j = candidate la (Suc j)"
  by (simp add: candidate_def add.assoc)

lemma candidate_0:
  "candidate la 0 = unat (address_offset la) mod n_addrs (addresses la)"
  by (simp add: candidate_def)

lemma candidate_less: "0 < n_addrs (addresses la) \<Longrightarrow> candidate la j < n_addrs (addresses la)"
  by (simp add: candidate_def)

text \<open>The scan changes nothing but the cursor.\<close>

lemma pick_scan_frame:
  "pick_scan k off la = (off', la') \<Longrightarrow> la' = la\<lparr>address_offset := address_offset la'\<rparr>"
proof (induction k arbitrary: off la)
  case 0
  then show ?case by simp
next
  case (Suc k)
  let ?o = "unat (address_offset la) mod n_addrs (addresses la)"
  show ?case
  proof (cases "skip_eligible (remote_stats la ! ?o)")
    case True
    with Suc.prems
    have "pick_scan k ?o (la\<lparr>address_offset := address_offset la + 1\<rparr>) = (off', la')"
      by (simp add: Let_def)
    from Suc.IH [OF this] show ?thesis by (cases la, cases la') simp
  next
    case False
    with Suc.prems show ?thesis by (auto simp: Let_def)
  qed
qed

text \<open>
  A scan of \<open>k\<close> iterations ends at its \<open>m\<close>-th candidate for some \<open>m < k\<close>: the
  candidates before it are all skip-eligible, and it is skip-eligible itself only when it
  is the last of the \<open>k\<close>.
\<close>

lemma pick_scan_stops:
  "0 < k \<Longrightarrow> pick_scan k off la = (off', la') \<Longrightarrow>
   \<exists>m<k. off' = candidate la m \<and>
     address_offset la' = address_offset la + of_nat (Suc m) \<and>
     (\<forall>j<m. skip_eligible (remote_stats la ! candidate la j)) \<and>
     (skip_eligible (remote_stats la ! candidate la m) \<longrightarrow> Suc m = k)"
proof (induction k arbitrary: off la)
  case 0
  then show ?case by simp
next
  case (Suc k)
  let ?o = "unat (address_offset la) mod n_addrs (addresses la)"
  let ?l = "la\<lparr>address_offset := address_offset la + 1\<rparr>"
  show ?case
  proof (cases "skip_eligible (remote_stats la ! ?o)")
    case False
    with Suc.prems have "off' = candidate la 0"
      "address_offset la' = address_offset la + of_nat (Suc 0)"
      by (auto simp: Let_def candidate_0)
    with False show ?thesis by (intro exI [of _ 0]) (simp add: candidate_0)
  next
    case True
    with Suc.prems have run: "pick_scan k ?o ?l = (off', la')"
      by (simp add: Let_def)
    show ?thesis
    proof (cases k)
      case 0
      with run have "off' = candidate la 0"
        "address_offset la' = address_offset la + of_nat (Suc 0)"
        by (auto simp: candidate_0)
      with 0 show ?thesis by (intro exI [of _ 0]) simp
    next
      case (Suc k')
      then have "0 < k" by simp
      from Suc.IH [OF this run] obtain m where m: "m < k" "off' = candidate ?l m"
        "address_offset la' = address_offset ?l + of_nat (Suc m)"
        "\<forall>j<m. skip_eligible (remote_stats ?l ! candidate ?l j)"
        "skip_eligible (remote_stats ?l ! candidate ?l m) \<longrightarrow> Suc m = k"
        by blast
      have before: "\<forall>j<Suc m. skip_eligible (remote_stats la ! candidate la j)"
      proof (intro allI impI)
        fix j assume "j < Suc m"
        show "skip_eligible (remote_stats la ! candidate la j)"
        proof (cases j)
          case 0
          with True show ?thesis by (simp add: candidate_0)
        next
          case (Suc i)
          with \<open>j < Suc m\<close> m(4) show ?thesis by (simp add: candidate_shift)
        qed
      qed
      have cur: "address_offset la' = address_offset la + of_nat (Suc (Suc m))"
        using m(3) by simp
      have last: "skip_eligible (remote_stats la ! candidate la (Suc m))
                    \<longrightarrow> Suc (Suc m) = Suc k"
        using m(5) by (simp add: candidate_shift)
      have "Suc m < Suc k" "off' = candidate la (Suc m)"
        using m(1,2) by (simp_all add: candidate_shift)
      with cur last before show ?thesis by blast
    qed
  qed
qed

text \<open>
  Claim C9. \<^verbatim>\<open>pick_remote_address\<close> always returns, after examining at most \<open>N\<close>
  candidates (\<open>N\<close> the length of the pool): it examines the candidates \<open>0, ..., m\<close>
  of the scan for some \<open>m < N\<close>, moving the cursor by \<open>m + 1\<close> and touching nothing
  else; every candidate before the \<open>m\<close>-th is skip-eligible; it returns the \<open>m\<close>-th,
  which is the first candidate that is not skip-eligible, or, when all \<open>N\<close> scanned
  candidates are skip-eligible, the last one scanned (\<open>m + 1 = N\<close>).
\<close>

theorem pick_remote_address_bounded_scan:
  assumes "0 < n_addrs (addresses la)"
  shows "\<exists>m<n_addrs (addresses la).
           pick_remote_address la =
             (candidate la m, la\<lparr>address_offset := address_offset la + of_nat (Suc m)\<rparr>) \<and>
           candidate la m < n_addrs (addresses la) \<and>
           (\<forall>j<m. skip_eligible (remote_stats la ! candidate la j)) \<and>
           (skip_eligible (remote_stats la ! candidate la m) \<longrightarrow> Suc m = n_addrs (addresses la))"
proof -
  obtain off' la' where run: "pick_scan (n_addrs (addresses la)) 0 la = (off', la')"
    by (cases "pick_scan (n_addrs (addresses la)) 0 la") blast
  from pick_scan_stops [OF assms run] obtain m where m: "m < n_addrs (addresses la)"
    "off' = candidate la m" "address_offset la' = address_offset la + of_nat (Suc m)"
    "\<forall>j<m. skip_eligible (remote_stats la ! candidate la j)"
    "skip_eligible (remote_stats la ! candidate la m) \<longrightarrow> Suc m = n_addrs (addresses la)"
    by blast
  from pick_scan_frame [OF run] m(3)
  have "la' = la\<lparr>address_offset := address_offset la + of_nat (Suc m)\<rparr>"
    by simp
  with run m(2) have "pick_remote_address la =
      (candidate la m, la\<lparr>address_offset := address_offset la + of_nat (Suc m)\<rparr>)"
    by (simp add: pick_remote_address_def)
  with m(1,4,5) candidate_less [OF assms] show ?thesis by blast
qed

theorem pick_remote_address_bounded_scan_witness:
  "0 < n_addrs (addresses la_dead) \<and>
   (\<exists>m<n_addrs (addresses la_dead).
      pick_remote_address la_dead =
        (candidate la_dead m,
         la_dead\<lparr>address_offset := address_offset la_dead + of_nat (Suc m)\<rparr>) \<and>
      candidate la_dead m < n_addrs (addresses la_dead) \<and>
      (\<forall>j<m. skip_eligible (remote_stats la_dead ! candidate la_dead j)) \<and>
      (skip_eligible (remote_stats la_dead ! candidate la_dead m)
         \<longrightarrow> Suc m = n_addrs (addresses la_dead))) \<and>
   pick_remote_address la_dead = (0, la_dead\<lparr>address_offset := 7\<rparr>)"
proof -
  have pos: "0 < n_addrs (addresses la_dead)"
    by (simp add: la_dead_def dead_def pool3_def loop_args_def)
  have run: "pick_remote_address la_dead = (0, la_dead\<lparr>address_offset := 7\<rparr>)"
    by (simp add: la_dead_def dead_def pool3_def loop_args_def pick_remote_address_def
        pick_scan_numeral Let_def skip_eligible_def)
  from pos pick_remote_address_bounded_scan [OF pos] run show ?thesis by blast
qed

section \<open>Opening a connection: the failure paths\<close>

lemma pick_remote_address_frame:
  "pick_remote_address la = (off, la') \<Longrightarrow> la' = la\<lparr>address_offset := address_offset la'\<rparr>"
  unfolding pick_remote_address_def by (rule pick_scan_frame)

text \<open>On a table that matches a non-empty pool, the entry picked is an entry of the table.\<close>

lemma pick_remote_address_in_table:
  assumes "table_ok la" "pick_remote_address la = (off, la')"
  shows "off < length (remote_stats la')" "remote_stats la' = remote_stats la"
proof -
  from assms(1) have pos: "0 < n_addrs (addresses la)"
    and len: "length (remote_stats la) = n_addrs (addresses la)"
    by (simp_all add: table_ok_def)
  from pick_remote_address_frame [OF assms(2)]
  have "remote_stats la' = remote_stats (la\<lparr>address_offset := address_offset la'\<rparr>)"
    by simp
  then show rs: "remote_stats la' = remote_stats la" by simp
  obtain off0 la0 where run: "pick_scan (n_addrs (addresses la)) 0 la = (off0, la0)"
    by (cases "pick_scan (n_addrs (addresses la)) 0 la") blast
  from pick_scan_stops [OF pos run] obtain m where "off0 = candidate la m" by blast
  with candidate_less [OF pos] have "off0 < n_addrs (addresses la)" by simp
  with run assms(2) have "off < n_addrs (addresses la)" by (simp add: pick_remote_address_def)
  with len rs show "off < length (remote_stats la')" by simp
qed

lemma pick_w_start:
  "pick_remote_address (userdata w_start) = (0, (userdata w_start)\<lparr>address_offset := 1\<rparr>)"
  by (simp add: pool3_def loop_args_def w_start_def single_engine_loop_thread_def
      pick_remote_address_def pick_scan_numeral Let_def skip_eligible_def)

lemma table_ok_w_start: "table_ok (userdata w_start)"
  by (simp add: pool3_def loop_args_def w_start_def single_engine_loop_thread_def
      table_ok_def)

lemma pick_w_dead:
  "pick_remote_address (userdata w_dead) = (0, (userdata w_dead)\<lparr>address_offset := 7\<rparr>)"
  by (simp add: w_dead_def la_dead_def dead_def pool3_def loop_args_def
      pick_remote_address_def pick_scan_numeral Let_def skip_eligible_def)

lemma table_ok_w_dead: "table_ok (userdata w_dead)"
  by (simp add: w_dead_def la_dead_def dead_def pool3_def loop_args_def table_ok_def)

lemma start_no_buffers:
  "start_new_connection sys_no_buffers w_start =
     Inr ([], w_start\<lparr>userdata := (userdata w_start)
            \<lparr>address_offset := 1,
             remote_stats := [\<lparr>connection_attempts = 1, connection_failures = 0\<rparr>,
                              fresh, fresh]\<rparr>\<rparr>)"
proof -
  have c: "count_attempt 0 ((userdata w_start)\<lparr>address_offset := 1\<rparr>) = (userdata w_start)
            \<lparr>address_offset := 1,
             remote_stats := [\<lparr>connection_attempts = 1, connection_failures = 0\<rparr>,
                              fresh, fresh]\<rparr>"
    by (simp add: pool3_def fresh_def loop_args_def w_start_def
      single_engine_loop_thread_def count_attempt_def replicate3)
  have l: "remote_stats (userdata w_start) \<noteq> []"
    by (simp add: pool3_def loop_args_def w_start_def single_engine_loop_thread_def replicate3)
  show ?thesis
    by (simp add: start_new_connection_def pick_w_start c l sys_no_buffers_def
        sys_connecting_def)
qed

text \<open>
  Claim C7, as stated: a \<^verbatim>\<open>socket\<close> failure other than the exhaustion of the descriptor
  table changes no state beyond the increment of the attempts counter. The address is
  selected before \<^verbatim>\<open>socket\<close> is called, and \<^verbatim>\<open>pick_remote_address\<close> advances the
  cursor \<^verbatim>\<open>address_offset\<close> by one for every entry it probes. On the worker \<open>w_start\<close>,
  whose cursor is 0, a \<^verbatim>\<open>'c'\<close> whose \<^verbatim>\<open>socket\<close> fails with \<^verbatim>\<open>ENOBUFS\<close> (105) returns
  with no output and with the cursor at 1: the state is not the state at entry with one
  more attempt counted for the first address.
\<close>

theorem start_new_connection_socket_failure_moves_cursor:
  "sys_socket sys_no_buffers = Inl (Errno 105) \<and>
   address_offset (userdata w_start) = 0 \<and>
   start_new_connection sys_no_buffers w_start =
     Inr ([], w_start\<lparr>userdata := (userdata w_start)
            \<lparr>address_offset := 1,
             remote_stats := [\<lparr>connection_attempts = 1, connection_failures = 0\<rparr>,
                              fresh, fresh]\<rparr>\<rparr>) \<and>
   count_attempt 0 (userdata w_start) =
     (userdata w_start)\<lparr>remote_stats := [\<lparr>connection_attempts = 1, connection_failures = 0\<rparr>,
                                          fresh, fresh]\<rparr> \<and>
   start_new_connection sys_no_buffers w_start \<noteq>
     Inr ([], w_start\<lparr>userdata := count_attempt 0 (userdata w_start)\<rparr>)"
proof -
  have c: "count_attempt 0 (userdata w_start) =
     (userdata w_start)\<lparr>remote_stats := [\<lparr>connection_attempts = 1, connection_failures = 0\<rparr>,
                                          fresh, fresh]\<rparr>"
    by (simp add: pool3_def fresh_def loop_args_def w_start_def
      single_engine_loop_thread_def count_attempt_def replicate3)
  have o: "address_offset (userdata w_start) = 0"
    by (simp add: loop_args_def w_start_def single_engine_loop_thread_def pool3_def)
  have "address_offset (userdata (snd (projr (start_new_connection sys_no_buffers w_start))))
        = 1"
    by (simp add: start_no_buffers)
  moreover have "address_offset (userdata (snd (projr
        (Inr ([], w_start\<lparr>userdata := count_attempt 0 (userdata w_start)\<rparr>)
           :: error + effect list \<times> worker)))) = 0"
    by (simp add: c o)
  ultimately have ne: "start_new_connection sys_no_buffers w_start \<noteq>
     Inr ([], w_start\<lparr>userdata := count_attempt 0 (userdata w_start)\<rparr>)"
    by (metis zero_neq_one)
  have s: "sys_socket sys_no_buffers = Inl (Errno 105)"
    by (simp add: sys_no_buffers_def sys_connecting_def)
  from s o c ne show ?thesis by (simp add: start_no_buffers)
qed

text \<open>
  Claim C7, amended. In \<^verbatim>\<open>start_new_connection\<close>, with \<open>off\<close> the entry selected and
  \<open>la\<close> the arguments as the selection leaves them: when \<^verbatim>\<open>socket\<close> fails with
  \<^verbatim>\<open>ENFILE\<close> the process exits after a message that reports the value of
  \<^verbatim>\<open>max_open_files\<close>, which is \<^verbatim>\<open>sysconf(_SC_OPEN_MAX)\<close> converted to \<^verbatim>\<open>int\<close> and is
  the limit itself whenever the limit fits an \<^verbatim>\<open>int\<close>; when it fails with any other
  error the call returns with no output, and the state is the state at entry but for the
  two changes made before \<^verbatim>\<open>socket\<close> was called: the cursor has advanced over the
  entries the selection probed (at least one, at most as many as there are addresses),
  and the attempts counter of the selected entry is incremented. No connection, no other
  counter and no watcher has changed.
\<close>

theorem start_new_connection_socket_failure:
  assumes "table_ok (userdata w)"
    and "pick_remote_address (userdata w) = (off, la)"
    and "sys_socket sys = Inl e"
  shows "start_new_connection sys w =
          (if e = ENFILE
           then Inl (Exit (System_socket_table_is_full
                             (sint (word_of_int (sys_open_max sys) :: 32 word))))
           else Inr ([], w\<lparr>userdata := (userdata w)
                  \<lparr>address_offset := address_offset la,
                   remote_stats := (remote_stats (userdata w))
                     [off := (remote_stats (userdata w) ! off)
                        \<lparr>connection_attempts :=
                           connection_attempts (remote_stats (userdata w) ! off) + 1\<rparr>]\<rparr>\<rparr>)) \<and>
         (- (2 ^ 31) \<le> sys_open_max sys \<and> sys_open_max sys < 2 ^ 31 \<longrightarrow>
            max_open_files sys = sys_open_max sys \<and>
            sint (word_of_int (sys_open_max sys) :: 32 word) = sys_open_max sys) \<and>
         (\<exists>m<n_addrs (addresses (userdata w)).
            off = candidate (userdata w) m \<and>
            address_offset la = address_offset (userdata w) + of_nat (Suc m))"
proof -
  from assms(1) have pos: "0 < n_addrs (addresses (userdata w))"
    by (simp add: table_ok_def)
  from assms(2)
  have run: "pick_scan (n_addrs (addresses (userdata w))) 0 (userdata w) = (off, la)"
    by (simp add: pick_remote_address_def)
  from pick_scan_stops [OF pos run]
  have cursor: "\<exists>m<n_addrs (addresses (userdata w)).
            off = candidate (userdata w) m \<and>
            address_offset la = address_offset (userdata w) + of_nat (Suc m)"
    by blast
  note tab = pick_remote_address_in_table [OF assms(1,2)]
  from pick_remote_address_frame [OF assms(2)]
  have "count_attempt off la =
          count_attempt off ((userdata w)\<lparr>address_offset := address_offset la\<rparr>)"
    by simp
  then have la1: "count_attempt off la = (userdata w)
                  \<lparr>address_offset := address_offset la,
                   remote_stats := (remote_stats (userdata w))
                     [off := (remote_stats (userdata w) ! off)
                        \<lparr>connection_attempts :=
                           connection_attempts (remote_stats (userdata w) ! off) + 1\<rparr>]\<rparr>"
    by (simp add: count_attempt_def)
  have range: "- (2 ^ 31) \<le> sys_open_max sys \<and> sys_open_max sys < 2 ^ 31 \<longrightarrow>
            max_open_files sys = sys_open_max sys \<and>
            sint (word_of_int (sys_open_max sys) :: 32 word) = sys_open_max sys"
    by (simp add: max_open_files_def signed_of_int signed_take_bit_int_eq_self)
  have "start_new_connection sys w =
          (if e = ENFILE
           then Inl (Exit (System_socket_table_is_full
                             (sint (word_of_int (sys_open_max sys) :: 32 word))))
           else Inr ([], w\<lparr>userdata := count_attempt off la\<rparr>))"
    using tab assms(2,3) by (simp add: start_new_connection_def max_open_files_def)
  with la1 range cursor show ?thesis by simp
qed

theorem start_new_connection_socket_failure_witness:
  "table_ok (userdata w_start) \<and>
   pick_remote_address (userdata w_start) = (0, (userdata w_start)\<lparr>address_offset := 1\<rparr>) \<and>
   sys_socket sys_table_full = Inl ENFILE \<and>
   - (2 ^ 31) \<le> sys_open_max sys_table_full \<and> sys_open_max sys_table_full < 2 ^ 31 \<and>
   sys_open_max sys_table_full = 1024 \<and>
   start_new_connection sys_table_full w_start = Inl (Exit (System_socket_table_is_full 1024)) \<and>
   sys_socket sys_table_full_huge = Inl ENFILE \<and>
   sys_open_max sys_table_full_huge = 4294967301 \<and>
   start_new_connection sys_table_full_huge w_start =
     Inl (Exit (System_socket_table_is_full 5)) \<and>
   sys_socket sys_no_buffers = Inl (Errno 105) \<and>
   start_new_connection sys_no_buffers w_start =
     Inr ([], w_start\<lparr>userdata := (userdata w_start)
            \<lparr>address_offset := 1,
             remote_stats := [\<lparr>connection_attempts = 1, connection_failures = 0\<rparr>,
                              fresh, fresh]\<rparr>\<rparr>)"
proof -
  have a: "sys_socket sys_table_full = Inl ENFILE"
    by (simp add: sys_table_full_def sys_connecting_def)
  have a': "sys_socket sys_table_full_huge = Inl ENFILE"
    by (simp add: sys_table_full_huge_def sys_table_full_def sys_connecting_def)
  have b: "sys_socket sys_no_buffers = Inl (Errno 105)"
    by (simp add: sys_no_buffers_def sys_connecting_def)
  have r: "(remote_stats (userdata w_start))
             [0 := (remote_stats (userdata w_start) ! 0)
                \<lparr>connection_attempts :=
                   connection_attempts (remote_stats (userdata w_start) ! 0) + 1\<rparr>] =
           [\<lparr>connection_attempts = 1, connection_failures = 0\<rparr>, fresh, fresh]"
    by (simp add: pool3_def fresh_def loop_args_def w_start_def
      single_engine_loop_thread_def replicate3)
  have d: "sys_open_max sys_table_full = 1024"
    by (simp add: sys_table_full_def sys_connecting_def)
  have d': "sys_open_max sys_table_full_huge = 4294967301"
    by (simp add: sys_table_full_huge_def)
  have t: "sint (word_of_int 4294967301 :: 32 word) = 5" "sint (word_of_int 1024 :: 32 word) = 1024"
    by (simp_all add: signed_of_int signed_take_bit_eq_take_bit_minus take_bit_numeral_numeral)
  from start_new_connection_socket_failure [OF table_ok_w_start pick_w_start a]
    start_new_connection_socket_failure [OF table_ok_w_start pick_w_start a']
    start_new_connection_socket_failure [OF table_ok_w_start pick_w_start b]
    table_ok_w_start pick_w_start a a' b r d d' t
  show ?thesis by simp
qed

text \<open>
  Claim C6. In \<^verbatim>\<open>start_new_connection\<close>, when \<^verbatim>\<open>connect\<close> fails with an error other
  than \<^verbatim>\<open>EINPROGRESS\<close>: the failures counter of the selected entry is incremented (as
  its attempts counter has been), the socket is closed, no connection is allocated and
  the count of open connections is unchanged; the failure is logged exactly when the
  entry had no failure recorded before, and the \<^verbatim>\<open>close\<close> is the only other output.
\<close>

theorem start_new_connection_connect_failure:
  assumes "table_ok (userdata w)"
    and "pick_remote_address (userdata w) = (off, la)"
    and "sys_socket sys = Inr sockfd" and "sys_fcntl sys \<noteq> - 1"
    and "sys_connect sys = Some e" and "e \<noteq> EINPROGRESS"
  shows "\<exists>w'. start_new_connection sys w =
           Inr ((if connection_failures (remote_stats (userdata w) ! off) = 0
                 then [Stderr (Connection_is_not_done off e)] else []) @ [Close sockfd], w') \<and>
          w' = w\<lparr>userdata := count_failure off (count_attempt off la)\<rparr> \<and>
          connection_failures (remote_stats (userdata w') ! off) =
            connection_failures (remote_stats (userdata w) ! off) + 1 \<and>
          connection_attempts (remote_stats (userdata w') ! off) =
            connection_attempts (remote_stats (userdata w) ! off) + 1 \<and>
          conns w' = conns w \<and>
          open_connections (userdata w') = open_connections (userdata w)"
proof -
  note t = pick_remote_address_in_table [OF assms(1,2)]
  from pick_remote_address_frame [OF assms(2)]
  have "open_connections la = open_connections ((userdata w)\<lparr>address_offset := address_offset la\<rparr>)"
    by simp
  then have oc: "open_connections la = open_connections (userdata w)" by simp
  show ?thesis
    using t assms(2-) oc
    by (simp add: start_new_connection_def count_attempt_def count_failure_def)
qed

theorem start_new_connection_connect_failure_witness:
  "table_ok (userdata w_start) \<and>
   pick_remote_address (userdata w_start) = (0, (userdata w_start)\<lparr>address_offset := 1\<rparr>) \<and>
   table_ok (userdata w_dead) \<and>
   pick_remote_address (userdata w_dead) = (0, (userdata w_dead)\<lparr>address_offset := 7\<rparr>) \<and>
   sys_socket sys_refused = Inr 7 \<and> sys_fcntl sys_refused \<noteq> - 1 \<and>
   sys_connect sys_refused = Some (Errno 111) \<and> Errno 111 \<noteq> EINPROGRESS \<and>
   start_new_connection sys_refused w_start =
     Inr ([Stderr (Connection_is_not_done 0 (Errno 111)), Close 7],
          w_start\<lparr>userdata :=
            count_failure 0 (count_attempt 0 ((userdata w_start)\<lparr>address_offset := 1\<rparr>))\<rparr>) \<and>
   start_new_connection sys_refused w_dead =
     Inr ([Close 7],
          w_dead\<lparr>userdata :=
            count_failure 0 (count_attempt 0 ((userdata w_dead)\<lparr>address_offset := 7\<rparr>))\<rparr>)"
proof -
  have s: "sys_socket sys_refused = Inr 7" "sys_fcntl sys_refused \<noteq> - 1"
    "sys_connect sys_refused = Some (Errno 111)" "Errno 111 \<noteq> EINPROGRESS"
    by (simp_all add: sys_refused_def sys_connecting_def)
  have f: "connection_failures (remote_stats (userdata w_start) ! 0) = 0"
    "connection_failures (remote_stats (userdata w_dead) ! 0) \<noteq> 0"
    by (simp_all add: w_dead_def la_dead_def dead_def pool3_def fresh_def loop_args_def w_start_def sys_connecting_def
      single_engine_loop_thread_def replicate3)
  from start_new_connection_connect_failure [OF table_ok_w_start pick_w_start s] f(1)
  have a: "start_new_connection sys_refused w_start =
     Inr ([Stderr (Connection_is_not_done 0 (Errno 111)), Close 7],
          w_start\<lparr>userdata :=
            count_failure 0 (count_attempt 0 ((userdata w_start)\<lparr>address_offset := 1\<rparr>))\<rparr>)"
    by auto
  from start_new_connection_connect_failure [OF table_ok_w_dead pick_w_dead s] f(2)
  have b: "start_new_connection sys_refused w_dead =
     Inr ([Close 7],
          w_dead\<lparr>userdata :=
            count_failure 0 (count_attempt 0 ((userdata w_dead)\<lparr>address_offset := 7\<rparr>))\<rparr>)"
    by auto
  from a b s table_ok_w_start pick_w_start table_ok_w_dead pick_w_dead show ?thesis
    by blast
qed

section \<open>A write that fails\<close>

lemma run_sent3:
  "ev_run [Control_ready sys_connecting, Connection_ready 0 EV_WRITE (Inr 3)] w_start
     = Inr ([Write 7 ''abc''], w_sent3)"
  apply (simp add: pool3_def fresh_def loop_args_def w_start_def sys_connecting_def
      single_engine_loop_thread_def control_cb_def start_new_connection_def
      pick_remote_address_def pick_scan_numeral Let_def skip_eligible_def count_attempt_def
      register_connection_def replicate3)
  apply (simp add: connection_cb_def largest_contiguous_chunk_def
      THREAD_TERMINATING_def EV_WRITE_def w_sent3_def loop_args_def fresh_def pool3_def)
  done

text \<open>
  Claim C8, as stated: a write that fails with an error other than \<^verbatim>\<open>EPIPE\<close> changes no
  state at all, the write offset of the connection included. \<^verbatim>\<open>connection_cb\<close> calls
  \<^verbatim>\<open>largest_contiguous_chunk\<close> before \<^verbatim>\<open>write\<close>, and that call stores 0 into a write
  offset that has reached the length of the payload. The worker \<open>w_sent3\<close> is reached
  from the start by one \<^verbatim>\<open>'c'\<close> and one write of three bytes; its connection has write
  offset 3, and after a write that fails with \<^verbatim>\<open>EAGAIN\<close> (11) it has write offset 0.
\<close>

theorem connection_cb_write_error_moves_offset:
  "ev_run [Control_ready sys_connecting, Connection_ready 0 EV_WRITE (Inr 3)] w_start
     = Inr ([Write 7 ''abc''], w_sent3) \<and>
   write_offset (conns w_sent3 ! 0) = 3 \<and>
   write_offset (conns (snd (connection_cb EV_WRITE (Inl (Errno 11)) 0 w_sent3)) ! 0) = 0"
  by (intro conjI, rule run_sent3)
     (simp_all add: w_sent3_def connection_cb_def largest_contiguous_chunk_def
      THREAD_TERMINATING_def EV_WRITE_def loop_args_def)

text \<open>
  Claim C8, amended. In \<^verbatim>\<open>connection_cb\<close> on a worker that is not terminating, a write
  that fails with an error other than \<^verbatim>\<open>EPIPE\<close> prints and writes nothing and leaves
  the arguments of the worker (health counters, count of open connections, aggregate
  byte counter), the control watcher, every other connection and the bytes-sent counter
  of this connection unchanged; the connection stays registered; its write offset is
  unchanged unless it equals the length of the payload, in which case it becomes 0.
\<close>

theorem connection_cb_write_error_frame:
  assumes "\<not> terminating w" and "revents AND EV_WRITE \<noteq> 0"
    and "i < length (conns w)" and "e \<noteq> EPIPE"
  shows "\<exists>w'. connection_cb revents (Inl e) i w = ([], w') \<and>
          userdata w' = userdata w \<and>
          control_watcher w' = control_watcher w \<and>
          length (conns w') = length (conns w) \<and>
          conns w' = (conns w)[i := (conns w ! i)\<lparr>write_offset :=
             if write_offset (conns w ! i) = sample_data_size (userdata w) then 0
             else write_offset (conns w ! i)\<rparr>] \<and>
          data_transmitted (conns w' ! i) = data_transmitted (conns w ! i)"
  using assms
  by (simp add: connection_cb_def terminating_def largest_contiguous_chunk_def Let_def)

theorem connection_cb_write_error_frame_witness:
  "\<not> terminating w_sent3 \<and> EV_WRITE AND EV_WRITE \<noteq> 0 \<and> 0 < length (conns w_sent3) \<and>
   Errno 11 \<noteq> EPIPE \<and>
   (\<exists>w'. connection_cb EV_WRITE (Inl (Errno 11)) 0 w_sent3 = ([], w') \<and>
          userdata w' = userdata w_sent3 \<and>
          control_watcher w' = control_watcher w_sent3 \<and>
          length (conns w') = length (conns w_sent3) \<and>
          conns w' = (conns w_sent3)[0 := (conns w_sent3 ! 0)\<lparr>write_offset :=
             if write_offset (conns w_sent3 ! 0) = sample_data_size (userdata w_sent3) then 0
             else write_offset (conns w_sent3 ! 0)\<rparr>] \<and>
          data_transmitted (conns w' ! 0) = data_transmitted (conns w_sent3 ! 0))"
proof -
  have h: "\<not> terminating w_sent3" "EV_WRITE AND EV_WRITE \<noteq> 0" "0 < length (conns w_sent3)"
    "Errno 11 \<noteq> EPIPE"
    by (simp_all add: terminating_def w_sent3_def THREAD_TERMINATING_def EV_WRITE_def
        loop_args_def)
  from connection_cb_write_error_frame [OF h] h show ?thesis by blast
qed

section \<open>Termination\<close>

lemma terminating_connection_cb:
  "terminating w \<Longrightarrow>
   connection_cb revents sys_write i w =
     ([], close_connection i
            (w\<lparr>userdata := (userdata w)
                 \<lparr>total_data_transmitted :=
                    total_data_transmitted (userdata w) + data_transmitted (conns w ! i),
                  open_connections := open_connections (userdata w) - 1\<rparr>\<rparr>))"
  by (simp add: connection_cb_def terminating_def Let_def)

lemma terminating_dispatch:
  assumes "terminating w" "\<not> control_watcher w"
  shows "\<exists>w'. dispatch ev w = Inr ([], w') \<and> terminating w' \<and> \<not> control_watcher w'"
proof (cases ev)
  case (Control_ready sys)
  with assms show ?thesis by simp
next
  case (Connection_ready i revents sys_write)
  with assms show ?thesis
    by (simp add: terminating_connection_cb) (simp add: terminating_def close_connection_def)
qed

lemma terminating_ev_run:
  assumes "terminating w" "\<not> control_watcher w"
  shows "\<exists>w'. ev_run evs w = Inr ([], w') \<and> terminating w' \<and> \<not> control_watcher w'"
  using assms
proof (induction evs arbitrary: w)
  case Nil
  then show ?case by simp
next
  case (Cons ev evs)
  from terminating_dispatch [OF Cons.prems] obtain w1 where
    w1: "dispatch ev w = Inr ([], w1)" "terminating w1" "\<not> control_watcher w1" by blast
  from Cons.IH [OF w1(2,3)] obtain w' where
    "ev_run evs w1 = Inr ([], w')" "terminating w'" "\<not> control_watcher w'" by blast
  with w1(1) show ?case by simp
qed

text \<open>
  Claim C5. When a worker reads \<^verbatim>\<open>'b'\<close> it sets its termination flag and stops its
  control watcher, printing nothing. From then on, whatever events follow, the loop
  never fails and its callbacks produce no output at all: no payload byte is written
  again, nothing is printed, and no descriptor is closed. The flag stays set and the
  control watcher stays stopped. In every state so reached, an event on any connection
  \<open>i\<close> the worker owns, whatever its \<^verbatim>\<open>revents\<close> and whatever \<^verbatim>\<open>write\<close> would
  answer, adds the bytes-sent counter of that connection to the aggregate of the worker,
  decrements the count of open connections and closes the connection, and does nothing
  else: the flag is tested before anything is transmitted. Closing is
  \<^verbatim>\<open>close_connection\<close>, which stops the watcher of the connection and frees it, so that
  connection \<open>i\<close> and only it leaves the connections of the worker, the others staying as
  they are and in their order; \<^verbatim>\<open>close_connection\<close> does not call \<^verbatim>\<open>close\<close> on the
  socket, whose descriptor stays open.
\<close>

theorem terminated_worker_only_tears_down:
  assumes "sys_read sys = Some (CHR ''b'')"
  shows "\<exists>w1. control_cb sys w = Inr ([], w1) \<and>
     w1 = w\<lparr>userdata := (userdata w)\<lparr>thread_flags := thread_flags (userdata w) OR 1\<rparr>,
            control_watcher := False\<rparr> \<and>
     (\<forall>evs. \<exists>w'. ev_run evs w1 = Inr ([], w') \<and>
        thread_flags (userdata w') AND 1 \<noteq> 0 \<and> \<not> control_watcher w' \<and>
        (\<forall>i revents sys_write. i < length (conns w') \<longrightarrow>
           connection_cb revents sys_write i w' =
             ([], w'\<lparr>userdata := (userdata w')
                       \<lparr>total_data_transmitted :=
                          total_data_transmitted (userdata w') + data_transmitted (conns w' ! i),
                        open_connections := open_connections (userdata w') - 1\<rparr>,
                     conns := take i (conns w') @ drop (Suc i) (conns w')\<rparr>) \<and>
           dispatch (Connection_ready i revents sys_write) w' =
             Inr (fst (connection_cb revents sys_write i w'),
                  snd (connection_cb revents sys_write i w')) \<and>
           length (conns (snd (connection_cb revents sys_write i w'))) = length (conns w') - 1 \<and>
           (\<forall>j. j < i \<longrightarrow>
              conns (snd (connection_cb revents sys_write i w')) ! j = conns w' ! j) \<and>
           (\<forall>j. i \<le> j \<and> Suc j < length (conns w') \<longrightarrow>
              conns (snd (connection_cb revents sys_write i w')) ! j = conns w' ! Suc j)))"
proof -
  let ?w1 = "w\<lparr>userdata := (userdata w)\<lparr>thread_flags := thread_flags (userdata w) OR 1\<rparr>,
               control_watcher := False\<rparr>"
  from assms have cb: "control_cb sys w = Inr ([], ?w1)"
    by (simp add: control_cb_def THREAD_TERMINATING_def)
  have t1: "terminating ?w1" "\<not> control_watcher ?w1"
    by (simp_all add: terminating_def THREAD_TERMINATING_def)
  have "\<exists>w'. ev_run evs ?w1 = Inr ([], w') \<and>
        thread_flags (userdata w') AND 1 \<noteq> 0 \<and> \<not> control_watcher w' \<and>
        (\<forall>i revents sys_write. i < length (conns w') \<longrightarrow>
           connection_cb revents sys_write i w' =
             ([], w'\<lparr>userdata := (userdata w')
                       \<lparr>total_data_transmitted :=
                          total_data_transmitted (userdata w') + data_transmitted (conns w' ! i),
                        open_connections := open_connections (userdata w') - 1\<rparr>,
                     conns := take i (conns w') @ drop (Suc i) (conns w')\<rparr>) \<and>
           dispatch (Connection_ready i revents sys_write) w' =
             Inr (fst (connection_cb revents sys_write i w'),
                  snd (connection_cb revents sys_write i w')) \<and>
           length (conns (snd (connection_cb revents sys_write i w'))) = length (conns w') - 1 \<and>
           (\<forall>j. j < i \<longrightarrow>
              conns (snd (connection_cb revents sys_write i w')) ! j = conns w' ! j) \<and>
           (\<forall>j. i \<le> j \<and> Suc j < length (conns w') \<longrightarrow>
              conns (snd (connection_cb revents sys_write i w')) ! j = conns w' ! Suc j))" for evs
  proof -
    from terminating_ev_run [OF t1] obtain w' where
      w': "ev_run evs ?w1 = Inr ([], w')" "terminating w'" "\<not> control_watcher w'" by blast
    from w'(2) have flag: "thread_flags (userdata w') AND 1 \<noteq> 0"
      by (simp add: terminating_def THREAD_TERMINATING_def)
    have step: "connection_cb revents sys_write i w' =
             ([], w'\<lparr>userdata := (userdata w')
                       \<lparr>total_data_transmitted :=
                          total_data_transmitted (userdata w') + data_transmitted (conns w' ! i),
                        open_connections := open_connections (userdata w') - 1\<rparr>,
                     conns := take i (conns w') @ drop (Suc i) (conns w')\<rparr>)"
      for i revents sys_write
      by (simp add: terminating_connection_cb [OF w'(2)] close_connection_def)
    have rest: "length (take i (conns w') @ drop (Suc i) (conns w')) = length (conns w') - 1 \<and>
           (\<forall>j. j < i \<longrightarrow> (take i (conns w') @ drop (Suc i) (conns w')) ! j = conns w' ! j) \<and>
           (\<forall>j. i \<le> j \<and> Suc j < length (conns w') \<longrightarrow>
              (take i (conns w') @ drop (Suc i) (conns w')) ! j = conns w' ! Suc j)"
      if "i < length (conns w')" for i
      using that by (auto simp: nth_append min_def)
    from w'(1,3) flag step rest show ?thesis by simp
  qed
  with cb show ?thesis by blast
qed

lemma run_two_folded:
  "ev_run [Control_ready sys_terminate, Connection_ready 0 EV_WRITE (Inr 3)] w_two
     = Inr ([], w_two_folded)"
  apply (simp add: sys_terminate_def sys_connecting_def control_cb_def w_two_def)
  apply (simp add: connection_cb_def THREAD_TERMINATING_def close_connection_def
      w_two_folded_def conn7_def conn8_def loop_args_def pool3_def fresh_def)
  done

lemma run_two_done:
  "ev_run [Connection_ready 0 0 (Inl EPIPE)] w_two_folded = Inr ([], w_two_done)"
  by (simp add: connection_cb_def THREAD_TERMINATING_def close_connection_def
      w_two_folded_def w_two_done_def conn8_def loop_args_def pool3_def fresh_def)

theorem terminated_worker_only_tears_down_witness:
  "sys_read sys_terminate = Some (CHR ''b'') \<and>
   (\<exists>w1. control_cb sys_terminate w_two = Inr ([], w1) \<and>
      w1 = w_two\<lparr>userdata := (userdata w_two)
                   \<lparr>thread_flags := thread_flags (userdata w_two) OR 1\<rparr>,
                 control_watcher := False\<rparr> \<and>
      (\<forall>evs. \<exists>w'. ev_run evs w1 = Inr ([], w') \<and>
        thread_flags (userdata w') AND 1 \<noteq> 0 \<and> \<not> control_watcher w' \<and>
        (\<forall>i revents sys_write. i < length (conns w') \<longrightarrow>
           connection_cb revents sys_write i w' =
             ([], w'\<lparr>userdata := (userdata w')
                       \<lparr>total_data_transmitted :=
                          total_data_transmitted (userdata w') + data_transmitted (conns w' ! i),
                        open_connections := open_connections (userdata w') - 1\<rparr>,
                     conns := take i (conns w') @ drop (Suc i) (conns w')\<rparr>) \<and>
           dispatch (Connection_ready i revents sys_write) w' =
             Inr (fst (connection_cb revents sys_write i w'),
                  snd (connection_cb revents sys_write i w')) \<and>
           length (conns (snd (connection_cb revents sys_write i w'))) = length (conns w') - 1 \<and>
           (\<forall>j. j < i \<longrightarrow>
              conns (snd (connection_cb revents sys_write i w')) ! j = conns w' ! j) \<and>
           (\<forall>j. i \<le> j \<and> Suc j < length (conns w') \<longrightarrow>
              conns (snd (connection_cb revents sys_write i w')) ! j = conns w' ! Suc j)))) \<and>
   conns w_two = [conn7, conn8] \<and> conn7 \<noteq> conn8 \<and>
   ev_run [Control_ready sys_terminate, Connection_ready 0 EV_WRITE (Inr 3)] w_two
     = Inr ([], w_two_folded) \<and>
   conns w_two_folded = [conn8] \<and>
   total_data_transmitted (userdata w_two_folded) = 3 \<and>
   open_connections (userdata w_two_folded) = 1 \<and>
   ev_run [Connection_ready 0 0 (Inl EPIPE)] w_two_folded = Inr ([], w_two_done) \<and>
   conns w_two_done = [] \<and>
   total_data_transmitted (userdata w_two_done) = 8 \<and>
   open_connections (userdata w_two_done) = 0"
proof -
  have h: "sys_read sys_terminate = Some (CHR ''b'')"
    by (simp add: sys_terminate_def sys_connecting_def)
  have ex: "conns w_two = [conn7, conn8]" "conn7 \<noteq> conn8" "conns w_two_folded = [conn8]"
    "total_data_transmitted (userdata w_two_folded) = 3"
    "open_connections (userdata w_two_folded) = 1"
    "conns w_two_done = []"
    "total_data_transmitted (userdata w_two_done) = 8"
    "open_connections (userdata w_two_done) = 0"
    by (simp_all add: w_two_def w_two_folded_def w_two_done_def conn7_def conn8_def)
  from terminated_worker_only_tears_down [OF h, of w_two] h run_two_folded run_two_done ex
  show ?thesis by blast
qed

section \<open>The shapes of a step\<close>

lemma pick_remote_address_fields:
  assumes "pick_remote_address la = (off, la')"
  shows "remote_stats la' = remote_stats la" "open_connections la' = open_connections la"
    "sample_data la' = sample_data la" "sample_data_size la' = sample_data_size la"
    "addresses la' = addresses la" "thread_flags la' = thread_flags la"
    "total_data_transmitted la' = total_data_transmitted la"
proof -
  from pick_remote_address_frame [OF assms] obtain c where "la' = la\<lparr>address_offset := c\<rparr>"
    by blast
  then show "remote_stats la' = remote_stats la" "open_connections la' = open_connections la"
    "sample_data la' = sample_data la" "sample_data_size la' = sample_data_size la"
    "addresses la' = addresses la" "thread_flags la' = thread_flags la"
    "total_data_transmitted la' = total_data_transmitted la"
    by simp_all
qed

text \<open>The ways \<^verbatim>\<open>start_new_connection\<close> returns, and the ways \<^verbatim>\<open>connection_cb\<close> does.\<close>

lemma start_new_connection_cases:
  assumes "start_new_connection sys w = Inr (out, w')"
  obtains
    (abandoned) off la where "pick_remote_address (userdata w) = (off, la)"
      "off < length (remote_stats la)" "w' = w\<lparr>userdata := count_attempt off la\<rparr>" "out = []"
  | (failed) off la sockfd e where "pick_remote_address (userdata w) = (off, la)"
      "off < length (remote_stats la)"
      "w' = w\<lparr>userdata := count_failure off (count_attempt off la)\<rparr>"
      "sys_socket sys = Inr sockfd" "sys_connect sys = Some e" "e \<noteq> EINPROGRESS"
  | (registered) off la sockfd where "pick_remote_address (userdata w) = (off, la)"
      "off < length (remote_stats la)"
      "w' = register_connection off sockfd (w\<lparr>userdata := count_attempt off la\<rparr>)" "out = []"
proof -
  obtain off la where p: "pick_remote_address (userdata w) = (off, la)"
    by (cases "pick_remote_address (userdata w)") blast
  show ?thesis
  proof (cases "length (remote_stats la) \<le> off")
    case True
    with assms p show ?thesis by (simp add: start_new_connection_def)
  next
    case False
    then have lt: "off < length (remote_stats la)" by simp
    show ?thesis
    proof (cases "sys_socket sys")
      case (Inl e)
      with assms p lt have "w' = w\<lparr>userdata := count_attempt off la\<rparr>" "out = []"
        by (auto simp: start_new_connection_def Let_def split: if_splits)
      with p lt show ?thesis by (rule abandoned)
    next
      case (Inr sockfd)
      show ?thesis
      proof (cases "sys_connect sys")
        case None
        with assms p lt Inr
        have "w' = register_connection off sockfd (w\<lparr>userdata := count_attempt off la\<rparr>)" "out = []"
          by (auto simp: start_new_connection_def Let_def split: if_splits)
        with p lt show ?thesis by (rule registered)
      next
        case (Some e)
        show ?thesis
        proof (cases "e = EINPROGRESS")
          case True
          with assms p lt Inr Some
          have "w' = register_connection off sockfd (w\<lparr>userdata := count_attempt off la\<rparr>)" "out = []"
            by (auto simp: start_new_connection_def Let_def split: if_splits)
          with p lt show ?thesis by (rule registered)
        next
          case False
          with assms p lt Inr Some
          have "w' = w\<lparr>userdata := count_failure off (count_attempt off la)\<rparr>"
            by (auto simp: start_new_connection_def Let_def split: if_splits)
          with p lt Inr Some False show ?thesis by (intro failed) 
        qed
      qed
    qed
  qed
qed

lemma connection_cb_cases:
  assumes "connection_cb revents sys_write i w = (out, w')"
  obtains
    (torn_down) "terminating w" "out = []"
      "w' = close_connection i
              (w\<lparr>userdata := (userdata w)
                   \<lparr>total_data_transmitted :=
                      total_data_transmitted (userdata w) + data_transmitted (conns w ! i),
                    open_connections := open_connections (userdata w) - 1\<rparr>\<rparr>)"
  | (peer_closed) la1 where "\<not> terminating w"
      "la1 = count_failure (remote_stats_ptr (conns w ! i)) (userdata w)"
      "w' = close_connection i
              (w\<lparr>userdata := la1
                   \<lparr>total_data_transmitted :=
                      total_data_transmitted la1 + data_transmitted (conns w ! i),
                    open_connections := open_connections la1 - 1\<rparr>\<rparr>)"
  | (kept) c where "\<not> terminating w" "w' = w\<lparr>conns := (conns w)[i := c]\<rparr>"
      "remote_stats_ptr c = remote_stats_ptr (conns w ! i)"
  | (idle) "\<not> terminating w" "w' = w" "out = []"
proof (cases "terminating w")
  case True
  with assms have "out = []"
      "w' = close_connection i
              (w\<lparr>userdata := (userdata w)
                   \<lparr>total_data_transmitted :=
                      total_data_transmitted (userdata w) + data_transmitted (conns w ! i),
                    open_connections := open_connections (userdata w) - 1\<rparr>\<rparr>)"
    by (auto simp: connection_cb_def terminating_def Let_def)
  with True show ?thesis by (rule torn_down)
next
  case nt: False
  show ?thesis
  proof (cases "revents AND EV_WRITE \<noteq> 0")
    case False
    with assms nt have "w' = w" "out = []"
      by (auto simp: connection_cb_def terminating_def Let_def)
    with nt show ?thesis by (rule idle)
  next
    case ew: True
    obtain off position available_length where
      ch: "largest_contiguous_chunk (userdata w) (write_offset (conns w ! i)) = (off, position, available_length)"
      by (cases "largest_contiguous_chunk (userdata w) (write_offset (conns w ! i))") blast
    show ?thesis
    proof (cases sys_write)
      case (Inr wrote)
      with assms nt ew ch have "w' = w\<lparr>conns := (conns w)[i := (conns w ! i)\<lparr>write_offset := off + wrote,
                                  data_transmitted := data_transmitted (conns w ! i) + wrote\<rparr>]\<rparr>"
        by (auto simp: connection_cb_def terminating_def Let_def)
      with nt show ?thesis by (rule kept) simp
    next
      case (Inl e)
      show ?thesis
      proof (cases "e = EPIPE")
        case True
        with assms nt ew ch Inl
        have "w' = close_connection i
              (w\<lparr>userdata := (count_failure (remote_stats_ptr (conns w ! i)) (userdata w))
                   \<lparr>total_data_transmitted :=
                      total_data_transmitted (count_failure (remote_stats_ptr (conns w ! i)) (userdata w))
                        + data_transmitted (conns w ! i),
                    open_connections :=
                      open_connections (count_failure (remote_stats_ptr (conns w ! i)) (userdata w)) - 1\<rparr>\<rparr>)"
          by (auto simp: connection_cb_def terminating_def Let_def)
        with nt refl show ?thesis by (rule peer_closed)
      next
        case False
        with assms nt ew ch Inl
        have "w' = w\<lparr>conns := (conns w)[i := (conns w ! i)\<lparr>write_offset := off\<rparr>]\<rparr>"
          by (auto simp: connection_cb_def terminating_def Let_def)
        with nt show ?thesis by (rule kept) simp
      qed
    qed
  qed
qed

section \<open>The count of open connections\<close>

lemma counted_start_new_connection:
  assumes "counted w" "start_new_connection sys w = Inr (out, w')"
  shows "counted w'"
  using assms(2)
proof (cases rule: start_new_connection_cases)
  case (abandoned off la)
  with assms(1) pick_remote_address_fields(2) [OF abandoned(1)] show ?thesis
    by (simp add: counted_def count_attempt_def)
next
  case (failed off la sockfd e)
  with assms(1) pick_remote_address_fields(2) [OF failed(1)] show ?thesis
    by (simp add: counted_def count_attempt_def count_failure_def)
next
  case (registered off la sockfd)
  with assms(1) pick_remote_address_fields(2) [OF registered(1)] show ?thesis
    by (simp add: counted_def count_attempt_def register_connection_def)
qed

lemma counted_control_cb:
  assumes "counted w" "control_cb sys w = Inr (out, w')"
  shows "counted w'"
proof (cases "sys_read sys")
  case None
  with assms show ?thesis by (simp add: control_cb_def)
next
  case (Some c)
  show ?thesis
  proof (cases "c = CHR ''c''")
    case True
    with assms Some counted_start_new_connection [of w sys out w'] show ?thesis
      by (simp add: control_cb_def)
  next
    case False
    with assms Some show ?thesis
      by (auto simp: control_cb_def counted_def split: if_splits)
  qed
qed

lemma counted_connection_cb:
  assumes "counted w" "i < length (conns w)" "connection_cb revents sys_write i w = (out, w')"
  shows "counted w'"
  using assms(3)
proof (cases rule: connection_cb_cases)
  case torn_down
  with assms(1,2) show ?thesis by (simp add: counted_def close_connection_def)
next
  case (peer_closed la1)
  with assms(1,2) show ?thesis by (simp add: counted_def close_connection_def count_failure_def)
next
  case (kept c)
  with assms(1) show ?thesis by (simp add: counted_def)
next
  case idle
  with assms(1) show ?thesis by simp
qed

lemma counted_dispatch:
  assumes "counted w" "dispatch ev w = Inr (out, w')"
  shows "counted w'"
proof (cases ev)
  case (Control_ready sys)
  with assms counted_control_cb [of w sys out w'] show ?thesis
    by (auto split: if_splits)
next
  case (Connection_ready i revents sys_write)
  with assms counted_connection_cb [of w i revents sys_write out w'] show ?thesis
    by (auto split: if_splits)
qed

lemma ev_run_Cons_Inr:
  assumes "ev_run (ev # evs) w = Inr (out, w')"
  obtains out1 w1 out2 where "dispatch ev w = Inr (out1, w1)" "ev_run evs w1 = Inr (out2, w')"
    "out = out1 @ out2"
  using assms by (auto split: sum.splits)

lemma counted_ev_run:
  assumes "counted w" "ev_run evs w = Inr (out, w')"
  shows "counted w'"
  using assms
proof (induction evs arbitrary: w out)
  case Nil
  then show ?case by simp
next
  case (Cons ev evs)
  from Cons.prems(2) obtain out1 w1 out2 where
    s: "dispatch ev w = Inr (out1, w1)" "ev_run evs w1 = Inr (out2, w')"
    by (rule ev_run_Cons_Inr)
  from counted_dispatch [OF Cons.prems(1) s(1)] have "counted w1" .
  from Cons.IH [OF this s(2)] show ?case .
qed

lemma start_engine_threads:
  assumes "start_engine esys pool = Inr (wr_pipe, out0, las)" "la \<in> set las"
  shows "\<exists>n. la = loop_args pool (fst (sys_pipe_fildes esys)) n"
  using assms by (auto simp: start_engine_def Let_def split: if_splits)

text \<open>
  Claim C10. In every state a worker created by \<^verbatim>\<open>start_engine\<close> reaches, whatever
  events its loop delivers, the count of open connections equals the number of live
  connections the worker owns (those allocated and registered by
  \<^verbatim>\<open>start_new_connection\<close> and not yet closed by \<^verbatim>\<open>connection_cb\<close>), and it is not
  negative; and every further callback changes the count by exactly the number of
  connections it registers or closes.
\<close>

theorem open_connections_counts_live_connections:
  assumes "start_engine esys pool = Inr (wr_pipe, out0, las)" and "la \<in> set las"
    and "ev_run evs (single_engine_loop_thread la) = Inr (out, w)"
  shows "open_connections (userdata w) = int (length (conns w)) \<and>
         0 \<le> open_connections (userdata w) \<and>
         (\<forall>ev out' w'. dispatch ev w = Inr (out', w') \<longrightarrow>
            open_connections (userdata w') - open_connections (userdata w) =
              int (length (conns w')) - int (length (conns w)))"
proof -
  from start_engine_threads [OF assms(1,2)] obtain n where
    "la = loop_args pool (fst (sys_pipe_fildes esys)) n" by blast
  then have "counted (single_engine_loop_thread la)"
    by (simp add: counted_def single_engine_loop_thread_def loop_args_def)
  from counted_ev_run [OF this assms(3)] have c: "counted w" .
  have "open_connections (userdata w') - open_connections (userdata w) =
          int (length (conns w')) - int (length (conns w))"
    if "dispatch ev w = Inr (out', w')" for ev out' w'
    using c counted_dispatch [OF c that] by (simp add: counted_def)
  with c show ?thesis by (simp add: counted_def)
qed

lemma start_engine_esys2:
  "start_engine esys2 pool3 =
     Inr (6, [Stderr (Using_available_CPUs 2)], [loop_args pool3 5 0, loop_args pool3 5 1])"
  by (simp add: start_engine_def esys2_def number_of_cpus_def upt_rec)

theorem open_connections_counts_live_connections_witness:
  "start_engine esys2 pool3 =
     Inr (6, [Stderr (Using_available_CPUs 2)], [loop_args pool3 5 0, loop_args pool3 5 1]) \<and>
   loop_args pool3 5 0 \<in> set [loop_args pool3 5 0, loop_args pool3 5 1] \<and>
   ev_run [Control_ready sys_connecting, Connection_ready 0 EV_WRITE (Inr 3)]
     (single_engine_loop_thread (loop_args pool3 5 0)) = Inr ([Write 7 ''abc''], w_sent3) \<and>
   open_connections (userdata w_sent3) = int (length (conns w_sent3)) \<and>
   0 \<le> open_connections (userdata w_sent3) \<and>
   length (conns w_sent3) = 1"
proof -
  have m: "loop_args pool3 5 0 \<in> set [loop_args pool3 5 0, loop_args pool3 5 1]" by simp
  have r: "ev_run [Control_ready sys_connecting, Connection_ready 0 EV_WRITE (Inr 3)]
     (single_engine_loop_thread (loop_args pool3 5 0)) = Inr ([Write 7 ''abc''], w_sent3)"
    using run_sent3 by (simp only: w_start_def)
  have l: "length (conns w_sent3) = 1" by (simp add: w_sent3_def)
  from open_connections_counts_live_connections [OF start_engine_esys2 m r]
    start_engine_esys2 m r l
  show ?thesis by blast
qed

section \<open>The health counters\<close>

lemma live_append: "live p (cs @ [c]) = live p cs + (if remote_stats_ptr c = p then 1 else 0)"
  by (simp add: live_def)

lemma live_split:
  assumes "i < length cs"
  shows "live p cs = live p (take i cs @ drop (Suc i) cs)
                       + (if remote_stats_ptr (cs ! i) = p then 1 else 0)"
proof -
  from assms have "cs = take i cs @ cs ! i # drop (Suc i) cs"
    by (rule id_take_nth_drop)
  then have "live p cs = live p (take i cs @ cs ! i # drop (Suc i) cs)" by simp
  then show ?thesis by (simp add: live_def)
qed

lemma live_update:
  assumes "i < length cs" "remote_stats_ptr c = remote_stats_ptr (cs ! i)"
  shows "live p (cs[i := c]) = live p cs"
proof -
  from assms(1) have "cs[i := c] = take i cs @ c # drop (Suc i) cs"
    by (rule upd_conv_take_nth_drop)
  then have "live p (cs[i := c]) = live p (take i cs @ drop (Suc i) cs)
                       + (if remote_stats_ptr c = p then 1 else 0)"
    by (simp add: live_def)
  with live_split [OF assms(1), of p] assms(2) show ?thesis by simp
qed

lemma health_ok_attempt:
  assumes "health_ok tbl cs"
  shows "health_ok (tbl[off := (tbl ! off)\<lparr>connection_attempts := connection_attempts (tbl ! off) + 1\<rparr>]) cs"
  unfolding health_ok_def
proof (intro allI impI)
  fix p assume "p < length (tbl[off := (tbl ! off)\<lparr>connection_attempts := connection_attempts (tbl ! off) + 1\<rparr>])"
  then have p: "p < length tbl" by simp
  with assms have "connection_failures (tbl ! p) + int (live p cs) \<le> connection_attempts (tbl ! p)"
    by (simp add: health_ok_def)
  with p show "connection_failures (tbl[off := (tbl ! off)\<lparr>connection_attempts := connection_attempts (tbl ! off) + 1\<rparr>] ! p)
          + int (live p cs)
        \<le> connection_attempts (tbl[off := (tbl ! off)\<lparr>connection_attempts := connection_attempts (tbl ! off) + 1\<rparr>] ! p)"
    by (cases "p = off") simp_all
qed

lemma health_ok_count_attempt:
  "health_ok (remote_stats la) cs \<Longrightarrow> health_ok (remote_stats (count_attempt off la)) cs"
  by (simp add: count_attempt_def health_ok_attempt)

text \<open>A failure is covered by an attempt that no live connection accounts for.\<close>

lemma health_ok_failure:
  assumes "\<forall>p<length tbl. connection_failures (tbl ! p) + int (live p cs) + (if p = off then 1 else 0)
              \<le> connection_attempts (tbl ! p)"
  shows "health_ok (tbl[off := (tbl ! off)\<lparr>connection_failures := connection_failures (tbl ! off) + 1\<rparr>]) cs"
  unfolding health_ok_def
proof (intro allI impI)
  fix p assume "p < length (tbl[off := (tbl ! off)\<lparr>connection_failures := connection_failures (tbl ! off) + 1\<rparr>])"
  then have p: "p < length tbl" by simp
  with assms have "connection_failures (tbl ! p) + int (live p cs) + (if p = off then 1 else 0)
              \<le> connection_attempts (tbl ! p)" by blast
  with p show "connection_failures (tbl[off := (tbl ! off)\<lparr>connection_failures := connection_failures (tbl ! off) + 1\<rparr>] ! p)
          + int (live p cs)
        \<le> connection_attempts (tbl[off := (tbl ! off)\<lparr>connection_failures := connection_failures (tbl ! off) + 1\<rparr>] ! p)"
    by (cases "p = off") simp_all
qed

lemma health_ok_start_new_connection:
  assumes "health_ok (remote_stats (userdata w)) (conns w)"
    "start_new_connection sys w = Inr (out, w')"
  shows "health_ok (remote_stats (userdata w')) (conns w')"
  using assms(2)
proof (cases rule: start_new_connection_cases)
  case (abandoned off la)
  with assms(1) pick_remote_address_fields(1) [OF abandoned(1)] show ?thesis
    by (simp add: health_ok_count_attempt)
next
  case (failed off la sockfd e)
  note rs = pick_remote_address_fields(1) [OF failed(1)]
  let ?t = "remote_stats (count_attempt off la)"
  have "\<forall>p<length ?t. connection_failures (?t ! p) + int (live p (conns w)) + (if p = off then 1 else 0)
              \<le> connection_attempts (?t ! p)"
  proof (intro allI impI)
    fix p assume "p < length ?t"
    then have p: "p < length (remote_stats (userdata w))" by (simp add: count_attempt_def rs)
    with assms(1) have "connection_failures (remote_stats (userdata w) ! p) + int (live p (conns w))
        \<le> connection_attempts (remote_stats (userdata w) ! p)"
      by (simp add: health_ok_def)
    with p show "connection_failures (?t ! p) + int (live p (conns w)) + (if p = off then 1 else 0)
              \<le> connection_attempts (?t ! p)"
      by (cases "p = off") (simp_all add: count_attempt_def rs)
  qed
  from health_ok_failure [OF this] failed(3) show ?thesis
    by (simp add: count_failure_def)
next
  case (registered off la sockfd)
  note rs = pick_remote_address_fields(1) [OF registered(1)]
  show ?thesis unfolding health_ok_def
  proof (intro allI impI)
    fix p assume "p < length (remote_stats (userdata w'))"
    with registered(3) have p: "p < length (remote_stats (userdata w))"
      by (simp add: register_connection_def count_attempt_def rs)
    with assms(1) have "connection_failures (remote_stats (userdata w) ! p) + int (live p (conns w))
        \<le> connection_attempts (remote_stats (userdata w) ! p)"
      by (simp add: health_ok_def)
    with p registered(3) show "connection_failures (remote_stats (userdata w') ! p) + int (live p (conns w'))
        \<le> connection_attempts (remote_stats (userdata w') ! p)"
      by (cases "p = off") (simp_all add: register_connection_def count_attempt_def rs live_append)
  qed
qed

lemma health_ok_control_cb:
  assumes "health_ok (remote_stats (userdata w)) (conns w)" "control_cb sys w = Inr (out, w')"
  shows "health_ok (remote_stats (userdata w')) (conns w')"
proof (cases "sys_read sys")
  case None
  with assms show ?thesis by (simp add: control_cb_def)
next
  case (Some c)
  show ?thesis
  proof (cases "c = CHR ''c''")
    case True
    with assms Some health_ok_start_new_connection [of w sys out w'] show ?thesis
      by (simp add: control_cb_def)
  next
    case False
    with assms Some show ?thesis
      by (auto simp: control_cb_def split: if_splits)
  qed
qed

lemma health_ok_close:
  assumes "health_ok tbl cs" "i < length cs"
  shows "health_ok tbl (take i cs @ drop (Suc i) cs)"
  unfolding health_ok_def
proof (intro allI impI)
  fix p assume "p < length tbl"
  with assms(1) have "connection_failures (tbl ! p) + int (live p cs) \<le> connection_attempts (tbl ! p)"
    by (simp add: health_ok_def)
  with live_split [OF assms(2), of p]
  show "connection_failures (tbl ! p) + int (live p (take i cs @ drop (Suc i) cs))
          \<le> connection_attempts (tbl ! p)"
    by (simp split: if_splits)
qed

lemma health_ok_connection_cb:
  assumes "health_ok (remote_stats (userdata w)) (conns w)" "i < length (conns w)"
    "connection_cb revents sys_write i w = (out, w')"
  shows "health_ok (remote_stats (userdata w')) (conns w')"
  using assms(3)
proof (cases rule: connection_cb_cases)
  case torn_down
  with health_ok_close [OF assms(1,2)] show ?thesis by (simp add: close_connection_def)
next
  case (peer_closed la1)
  let ?t = "remote_stats (userdata w)"
  let ?cs = "take i (conns w) @ drop (Suc i) (conns w)"
  let ?off = "remote_stats_ptr (conns w ! i)"
  have "\<forall>p<length ?t. connection_failures (?t ! p) + int (live p ?cs) + (if p = ?off then 1 else 0)
              \<le> connection_attempts (?t ! p)"
  proof (intro allI impI)
    fix p assume "p < length ?t"
    with assms(1) have "connection_failures (?t ! p) + int (live p (conns w)) \<le> connection_attempts (?t ! p)"
      by (simp add: health_ok_def)
    with live_split [OF assms(2), of p]
    show "connection_failures (?t ! p) + int (live p ?cs) + (if p = ?off then 1 else 0)
              \<le> connection_attempts (?t ! p)"
      by (simp split: if_splits)
  qed
  from health_ok_failure [OF this] peer_closed show ?thesis
    by (simp add: close_connection_def count_failure_def)
next
  case (kept c)
  with assms(1) live_update [OF assms(2) kept(3)] show ?thesis
    by (simp add: health_ok_def)
next
  case idle
  with assms(1) show ?thesis by simp
qed

lemma health_ok_dispatch:
  assumes "health_ok (remote_stats (userdata w)) (conns w)" "dispatch ev w = Inr (out, w')"
  shows "health_ok (remote_stats (userdata w')) (conns w')"
proof (cases ev)
  case (Control_ready sys)
  with assms health_ok_control_cb [of w sys out w'] show ?thesis
    by (auto split: if_splits)
next
  case (Connection_ready i revents sys_write)
  with assms health_ok_connection_cb [of w i revents sys_write out w'] show ?thesis
    by (auto split: if_splits)
qed

lemma health_ok_ev_run:
  assumes "health_ok (remote_stats (userdata w)) (conns w)" "ev_run evs w = Inr (out, w')"
  shows "health_ok (remote_stats (userdata w')) (conns w')"
  using assms
proof (induction evs arbitrary: w out)
  case Nil
  then show ?case by simp
next
  case (Cons ev evs)
  from Cons.prems(2) obtain out1 w1 out2 where
    s: "dispatch ev w = Inr (out1, w1)" "ev_run evs w1 = Inr (out2, w')"
    by (rule ev_run_Cons_Inr)
  from health_ok_dispatch [OF Cons.prems(1) s(1)]
  have "health_ok (remote_stats (userdata w1)) (conns w1)" .
  from Cons.IH [OF this s(2)] show ?case .
qed

text \<open>
  Claim C4. In every state a worker created by \<^verbatim>\<open>start_engine\<close> reaches, whatever
  events its loop delivers (so after the initialisation and after every
  \<^verbatim>\<open>pick_remote_address\<close>, \<^verbatim>\<open>start_new_connection\<close> and \<^verbatim>\<open>connection_cb\<close>, the
  connect-error and the broken-pipe branch included), every entry of the health table has
  \<open>failures \<le> attempts\<close>. A connection that fails with a broken pipe is closed by the
  same callback, so it increments failures once at most.
\<close>

theorem failures_never_exceed_attempts:
  assumes "start_engine esys pool = Inr (wr_pipe, out0, las)" and "la \<in> set las"
    and "ev_run evs (single_engine_loop_thread la) = Inr (out, w)"
  shows "\<forall>rs \<in> set (remote_stats (userdata w)).
           connection_failures rs \<le> connection_attempts rs"
proof -
  from start_engine_threads [OF assms(1,2)] obtain n where
    "la = loop_args pool (fst (sys_pipe_fildes esys)) n" by blast
  then have "health_ok (remote_stats (userdata (single_engine_loop_thread la)))
               (conns (single_engine_loop_thread la))"
    by (simp add: health_ok_def single_engine_loop_thread_def loop_args_def live_def)
  from health_ok_ev_run [OF this assms(3)]
  have ok: "health_ok (remote_stats (userdata w)) (conns w)" .
  show ?thesis
  proof
    fix rs assume "rs \<in> set (remote_stats (userdata w))"
    then obtain p where p: "p < length (remote_stats (userdata w))"
      "rs = remote_stats (userdata w) ! p"
      by (auto simp: in_set_conv_nth)
    with ok have "connection_failures rs + int (live p (conns w)) \<le> connection_attempts rs"
      by (simp add: health_ok_def)
    then show "connection_failures rs \<le> connection_attempts rs" by simp
  qed
qed

lemma run_broken:
  "ev_run [Control_ready sys_connecting, Connection_ready 0 EV_WRITE (Inl EPIPE)]
     (single_engine_loop_thread (loop_args pool3 5 0))
     = Inr ([Stderr (Connection_closed_by 0)], w_broken)"
  apply (simp add: pool3_def fresh_def loop_args_def w_start_def sys_connecting_def
      single_engine_loop_thread_def control_cb_def start_new_connection_def
      pick_remote_address_def pick_scan_numeral Let_def skip_eligible_def count_attempt_def
      register_connection_def replicate3)
  apply (simp add: connection_cb_def largest_contiguous_chunk_def count_failure_def
      close_connection_def THREAD_TERMINATING_def EV_WRITE_def w_broken_def loop_args_def
      fresh_def pool3_def)
  done

theorem failures_never_exceed_attempts_witness:
  "start_engine esys2 pool3 =
     Inr (6, [Stderr (Using_available_CPUs 2)], [loop_args pool3 5 0, loop_args pool3 5 1]) \<and>
   loop_args pool3 5 0 \<in> set [loop_args pool3 5 0, loop_args pool3 5 1] \<and>
   ev_run [Control_ready sys_connecting, Connection_ready 0 EV_WRITE (Inl EPIPE)]
     (single_engine_loop_thread (loop_args pool3 5 0))
     = Inr ([Stderr (Connection_closed_by 0)], w_broken) \<and>
   remote_stats (userdata w_broken) ! 0 = \<lparr>connection_attempts = 1, connection_failures = 1\<rparr> \<and>
   connection_failures (remote_stats (userdata w_broken) ! 0)
     \<le> connection_attempts (remote_stats (userdata w_broken) ! 0)"
proof -
  have m: "loop_args pool3 5 0 \<in> set [loop_args pool3 5 0, loop_args pool3 5 1]" by simp
  have e: "remote_stats (userdata w_broken) ! 0
             = \<lparr>connection_attempts = 1, connection_failures = 1\<rparr>"
    "remote_stats (userdata w_broken) ! 0 \<in> set (remote_stats (userdata w_broken))"
    by (simp_all add: w_broken_def)
  from failures_never_exceed_attempts [OF start_engine_esys2 m run_broken] e(2)
  have "connection_failures (remote_stats (userdata w_broken) ! 0)
     \<le> connection_attempts (remote_stats (userdata w_broken) ! 0)"
    by blast
  with start_engine_esys2 m run_broken e(1) show ?thesis by blast
qed

section \<open>The stream is the payload, repeated\<close>

lemma cyc_append: "cyc p s (k + r) = cyc p s k @ cyc p (s + k) r"
proof (rule nth_equalityI)
  show "length (cyc p s (k + r)) = length (cyc p s k @ cyc p (s + k) r)"
    by (simp add: cyc_def)
next
  fix j assume "j < length (cyc p s (k + r))"
  then have j: "j < k + r" by (simp add: cyc_def)
  show "cyc p s (k + r) ! j = (cyc p s k @ cyc p (s + k) r) ! j"
  proof (cases "j < k")
    case True
    with j show ?thesis by (simp add: cyc_def nth_append)
  next
    case False
    with j have "j - k < r" "s + k + (j - k) = s + j" by simp_all
    with j False show ?thesis by (simp add: cyc_def nth_append)
  qed
qed

lemma cyc_wrap: "cyc p (length p + s) n = cyc p s n"
  by (simp add: cyc_def add.assoc)

lemma cyc_slice:
  assumes "s + k \<le> length p"
  shows "take k (drop s p) = cyc p s k"
proof (rule nth_equalityI)
  show "length (take k (drop s p)) = length (cyc p s k)"
    using assms by (simp add: cyc_def)
next
  fix j assume "j < length (take k (drop s p))"
  with assms have j: "j < k" "s + j < length p" by simp_all
  then show "take k (drop s p) ! j = cyc p s k ! j"
    by (simp add: cyc_def)
qed

lemma nth_concat_replicate:
  "0 < length p \<Longrightarrow> j < n * length p \<Longrightarrow> concat (replicate n p) ! j = p ! (j mod length p)"
proof (induction n arbitrary: j)
  case 0
  then show ?case by simp
next
  case (Suc n)
  show ?case
  proof (cases "j < length p")
    case True
    then show ?thesis by (simp add: nth_append)
  next
    case False
    with Suc.prems have "j - length p < n * length p" by simp
    from Suc.IH [OF Suc.prems(1) this] False show ?thesis
      by (simp add: nth_append le_mod_geq)
  qed
qed

lemma repeated_cyc:
  assumes "0 < length p"
  shows "repeated p n = cyc p 0 n"
proof (rule nth_equalityI)
  from assms have "n \<le> n * length p" by (cases "length p") simp_all
  then show "length (repeated p n) = length (cyc p 0 n)"
    by (simp add: repeated_def cyc_def length_concat sum_list_replicate)
next
  fix j assume "j < length (repeated p n)"
  then have j: "j < n" by (simp add: repeated_def)
  from assms have "n \<le> n * length p" by (cases "length p") simp_all
  with j have "j < n * length p" by (rule less_le_trans)
  from nth_concat_replicate [OF assms this] j show "repeated p n ! j = cyc p 0 n ! j"
    by (simp add: repeated_def cyc_def)
qed

lemma write_step:
  assumes "\<not> terminating w"
    and "largest_contiguous_chunk (userdata w) (write_offset (conns w ! i)) = (off, position, available_length)"
  shows "connection_cb EV_WRITE (Inr n) i w =
     ([Write (watcher_fd (conns w ! i))
         (take (unat n) (drop (unat position) (sample_data (userdata w))))],
      w\<lparr>conns := (conns w)[i := (conns w ! i)
               \<lparr>write_offset := off + n,
                data_transmitted := data_transmitted (conns w ! i) + n\<rparr>]\<rparr>)"
  using assms by (simp add: connection_cb_def terminating_def EV_WRITE_def Let_def)

text \<open>What a chunk and a write within it do to an offset that lies within the payload.\<close>

lemma chunk_write:
  fixes la :: loop_arguments and p :: string
  assumes len: "length (sample_data la) = unat (sample_data_size la)"
    and o: "unat off0 \<le> length (sample_data la)"
    and ch: "largest_contiguous_chunk la off0 = (off, position, available_length)"
    and n: "n \<le> available_length"
  shows "take (unat n) (drop (unat position) (sample_data la)) = cyc (sample_data la) (unat off0) (unat n)"
    and "unat (off + n) \<le> length (sample_data la)"
    and "cyc (sample_data la) (unat (off + n)) m = cyc (sample_data la) (unat off0 + unat n) m"
proof -
  let ?p = "sample_data la" and ?size = "sample_data_size la"
  have all: "take (unat n) (drop (unat position) ?p) = cyc ?p (unat off0) (unat n) \<and>
        unat (off + n) \<le> length ?p \<and>
        cyc ?p (unat (off + n)) m = cyc ?p (unat off0 + unat n) m"
  proof (cases "off0 = ?size")
    case True
    with ch have c: "off = 0" "position = 0" "available_length = ?size"
      by (simp_all add: largest_contiguous_chunk_def)
    with n len have nl: "unat n \<le> length ?p" by (simp add: word_le_nat_alt)
    then have "take (unat n) (drop 0 ?p) = cyc ?p 0 (unat n)"
      by (intro cyc_slice) simp
    moreover have "cyc ?p (unat off0) (unat n) = cyc ?p 0 (unat n)"
      using True len cyc_wrap [of ?p 0 "unat n"] by simp
    moreover have "cyc ?p (unat off0 + unat n) m = cyc ?p (unat n) m"
      using True len cyc_wrap [of ?p "unat n" m] by simp
    ultimately show ?thesis using c nl by simp
  next
    case False
    then have "?size - off0 \<noteq> 0" by simp
    with ch have c: "off = off0" "position = off0" "available_length = ?size - off0"
      by (auto simp: largest_contiguous_chunk_def Let_def)
    from o len have le: "off0 \<le> ?size" by (simp add: word_le_nat_alt)
    then have "unat (?size - off0) = unat ?size - unat off0" by (rule unat_sub)
    with n c(3) have nl: "unat n \<le> unat ?size - unat off0" by (simp add: word_le_nat_alt)
    with o len have sum: "unat off0 + unat n \<le> length ?p" by simp
    have "unat ?size < 2 ^ LENGTH(64)" by (rule unsigned_less)
    with sum len have "unat off0 + unat n < 2 ^ LENGTH(64)" by simp
    then have add: "unat (off0 + n) = unat off0 + unat n" by (simp only: unat_add_lem)
    from sum have "take (unat n) (drop (unat off0) ?p) = cyc ?p (unat off0) (unat n)"
      by (rule cyc_slice)
    with c add sum show ?thesis by simp
  qed
  from all show "take (unat n) (drop (unat position) ?p) = cyc ?p (unat off0) (unat n)"
    "unat (off + n) \<le> length ?p"
    "cyc ?p (unat (off + n)) m = cyc ?p (unat off0 + unat n) m"
    by simp_all
qed

lemma pump:
  assumes "\<not> terminating w" and "i < length (conns w)"
    and "length (sample_data (userdata w)) = unat (sample_data_size (userdata w))"
    and "unat (write_offset (conns w ! i)) \<le> length (sample_data (userdata w))"
    and "writes_within (userdata w) (write_offset (conns w ! i)) ns"
  shows "\<exists>out w'. ev_run (map (\<lambda>n. Connection_ready i EV_WRITE (Inr n)) ns) w = Inr (out, w') \<and>
     stream_of (watcher_fd (conns w ! i)) out =
       cyc (sample_data (userdata w)) (unat (write_offset (conns w ! i))) (sum_list (map unat ns))"
  using assms
proof (induction ns arbitrary: w)
  case Nil
  then show ?case by (simp add: cyc_def)
next
  case (Cons n ns)
  let ?c = "conns w ! i" and ?la = "userdata w"
  obtain off position available_length where
    ch: "largest_contiguous_chunk ?la (write_offset ?c) = (off, position, available_length)"
    by (cases "largest_contiguous_chunk ?la (write_offset ?c)") blast
  with Cons.prems(5) have n: "n \<le> available_length" and rest: "writes_within ?la (off + n) ns"
    by simp_all
  let ?c1 = "?c\<lparr>write_offset := off + n, data_transmitted := data_transmitted ?c + n\<rparr>"
  let ?w1 = "w\<lparr>conns := (conns w)[i := ?c1]\<rparr>"
  let ?bytes = "take (unat n) (drop (unat position) (sample_data ?la))"
  note k = chunk_write [OF Cons.prems(3,4) ch n]
  from write_step [OF Cons.prems(1) ch] Cons.prems(2)
  have step: "dispatch (Connection_ready i EV_WRITE (Inr n)) w = Inr ([Write (watcher_fd ?c) ?bytes], ?w1)"
    by simp
  have c1: "conns ?w1 ! i = ?c1" using Cons.prems(2) by simp
  have "\<exists>out w'. ev_run (map (\<lambda>n. Connection_ready i EV_WRITE (Inr n)) ns) ?w1 = Inr (out, w') \<and>
     stream_of (watcher_fd (conns ?w1 ! i)) out =
       cyc (sample_data (userdata ?w1)) (unat (write_offset (conns ?w1 ! i))) (sum_list (map unat ns))"
  proof (rule Cons.IH)
    show "\<not> terminating ?w1" using Cons.prems(1) by (simp add: terminating_def)
    show "i < length (conns ?w1)" using Cons.prems(2) by simp
    show "length (sample_data (userdata ?w1)) = unat (sample_data_size (userdata ?w1))"
      using Cons.prems(3) by simp
    show "unat (write_offset (conns ?w1 ! i)) \<le> length (sample_data (userdata ?w1))"
      using k(2) Cons.prems(2) by simp
    show "writes_within (userdata ?w1) (write_offset (conns ?w1 ! i)) ns"
      using rest Cons.prems(2) by simp
  qed
  then obtain out w' where
    run: "ev_run (map (\<lambda>n. Connection_ready i EV_WRITE (Inr n)) ns) ?w1 = Inr (out, w')"
    and str: "stream_of (watcher_fd ?c) out =
       cyc (sample_data ?la) (unat (off + n)) (sum_list (map unat ns))"
    using Cons.prems(2) by auto
  from step run have
    "ev_run (map (\<lambda>n. Connection_ready i EV_WRITE (Inr n)) (n # ns)) w
       = Inr ([Write (watcher_fd ?c) ?bytes] @ out, w')"
    by simp
  moreover have "stream_of (watcher_fd ?c) ([Write (watcher_fd ?c) ?bytes] @ out)
      = cyc (sample_data ?la) (unat (write_offset ?c)) (sum_list (map unat (n # ns)))"
    using str k(1) k(3) [of "sum_list (map unat ns)"]
    by (simp add: cyc_append)
  ultimately show ?case by blast
qed

lemma cyc_nth: "j < n \<Longrightarrow> cyc p s n ! j = p ! ((s + j) mod length p)"
  by (simp add: cyc_def)

text \<open>
  Claim C2. Take a worker that is not terminating, whose payload has the length
  \<open>L \<ge> 1\<close> its size field says, and a connection of it at write offset 0. Let the
  connection see any sequence of write-readiness events whose \<^verbatim>\<open>write\<close> each takes
  between 0 and the offered chunk length bytes. Then the loop succeeds, and the bytes
  written to the socket, concatenated, are the payload repeated verbatim, cut at their
  total length: byte \<open>j\<close> of the stream is byte \<open>j mod L\<close> of the payload, however the
  writes were chunked. A chunk computed at offset \<open>L\<close> wraps the offset to 0 and offers
  the full buffer.
\<close>

theorem payload_stream_is_repeated_payload:
  assumes "\<not> terminating w" and "i < length (conns w)"
    and "length (sample_data (userdata w)) = unat (sample_data_size (userdata w))"
    and "1 \<le> length (sample_data (userdata w))"
    and "write_offset (conns w ! i) = 0"
    and "writes_within (userdata w) 0 ns"
  shows "\<exists>out w'.
     ev_run (map (\<lambda>n. Connection_ready i EV_WRITE (Inr n)) ns) w = Inr (out, w') \<and>
     stream_of (watcher_fd (conns w ! i)) out =
       repeated (sample_data (userdata w)) (sum_list (map unat ns)) \<and>
     (\<forall>j. j < sum_list (map unat ns) \<longrightarrow>
        stream_of (watcher_fd (conns w ! i)) out ! j =
          sample_data (userdata w) ! (j mod length (sample_data (userdata w)))) \<and>
     largest_contiguous_chunk (userdata w) (sample_data_size (userdata w)) =
       (0, 0, sample_data_size (userdata w))"
proof -
  let ?p = "sample_data (userdata w)" and ?t = "sum_list (map unat ns)"
  from assms(5) have o: "unat (write_offset (conns w ! i)) \<le> length ?p" by simp
  from assms(5,6) have ww: "writes_within (userdata w) (write_offset (conns w ! i)) ns" by simp
  from pump [OF assms(1,2,3) o ww] assms(5) obtain out w' where
    run: "ev_run (map (\<lambda>n. Connection_ready i EV_WRITE (Inr n)) ns) w = Inr (out, w')"
    and str: "stream_of (watcher_fd (conns w ! i)) out = cyc ?p 0 ?t"
    by auto
  from assms(4) have pos: "0 < length ?p" by (cases ?p) simp_all
  from str repeated_cyc [OF pos, of ?t]
  have rep: "stream_of (watcher_fd (conns w ! i)) out = repeated ?p ?t" by simp
  have nth: "\<forall>j. j < ?t \<longrightarrow>
      stream_of (watcher_fd (conns w ! i)) out ! j = ?p ! (j mod length ?p)"
    using str by (simp add: cyc_nth)
  have wrap: "largest_contiguous_chunk (userdata w) (sample_data_size (userdata w)) =
       (0, 0, sample_data_size (userdata w))"
    by (simp add: largest_contiguous_chunk_def)
  from run rep nth wrap show ?thesis by blast
qed

lemma repeated_abc: "repeated ''abc'' 6 = ''abcabc''"
  by (simp add: repeated_def eval_nat_numeral)

lemma run_ab_c:
  "ev_run (map (\<lambda>n. Connection_ready 0 EV_WRITE (Inr n)) [2, 1, 2, 1]) w_open
     = Inr ([Write 7 ''ab'', Write 7 ''c'', Write 7 ''ab'', Write 7 ''c''],
            w_open\<lparr>conns := [\<lparr>write_offset = 3, data_transmitted = 6, remote_address = 0,
                remote_stats_ptr = 0, watcher_fd = 7\<rparr>]\<rparr>)"
  by (simp add: w_open_def connection_cb_def largest_contiguous_chunk_def
      THREAD_TERMINATING_def EV_WRITE_def loop_args_def)

theorem payload_stream_is_repeated_payload_witness:
  "\<not> terminating w_open \<and> 0 < length (conns w_open) \<and>
   length (sample_data (userdata w_open)) = unat (sample_data_size (userdata w_open)) \<and>
   1 \<le> length (sample_data (userdata w_open)) \<and>
   write_offset (conns w_open ! 0) = 0 \<and>
   writes_within (userdata w_open) 0 [2, 1, 2, 1] \<and>
   (\<exists>out w'.
      ev_run (map (\<lambda>n. Connection_ready 0 EV_WRITE (Inr n)) [2, 1, 2, 1]) w_open
        = Inr (out, w') \<and>
      out = [Write 7 ''ab'', Write 7 ''c'', Write 7 ''ab'', Write 7 ''c''] \<and>
      stream_of 7 out = repeated ''abc'' 6 \<and>
      stream_of 7 out = ''abcabc'')"
proof -
  have h: "\<not> terminating w_open" "0 < length (conns w_open)"
    "length (sample_data (userdata w_open)) = unat (sample_data_size (userdata w_open))"
    "1 \<le> length (sample_data (userdata w_open))"
    "write_offset (conns w_open ! 0) = 0"
    "writes_within (userdata w_open) 0 [2, 1, 2, 1]"
    by (simp_all add: w_open_def terminating_def THREAD_TERMINATING_def loop_args_def
        largest_contiguous_chunk_def)
  have e: "watcher_fd (conns w_open ! 0) = 7" "sample_data (userdata w_open) = ''abc''"
    "sum_list (map unat [2, 1, 2, 1 :: 64 word]) = 6"
    by (simp_all add: w_open_def loop_args_def)
  from payload_stream_is_repeated_payload [OF h] obtain out w' where
    r: "ev_run (map (\<lambda>n. Connection_ready 0 EV_WRITE (Inr n)) [2, 1, 2, 1]) w_open
        = Inr (out, w')"
    "stream_of (watcher_fd (conns w_open ! 0)) out =
       repeated (sample_data (userdata w_open)) (sum_list (map unat [2, 1, 2, 1 :: 64 word]))"
    by blast
  from r(1) run_ab_c
  have o: "out = [Write 7 ''ab'', Write 7 ''c'', Write 7 ''ab'', Write 7 ''c'']" by simp
  from r(2) e have s: "stream_of 7 out = repeated ''abc'' 6" by simp
  with repeated_abc have "stream_of 7 out = ''abcabc''" by simp
  with h r(1) o s show ?thesis by blast
qed

section \<open>The payload of the engine\<close>

text \<open>
  Claim C3, as stated: the payload and its length are inputs of \<^verbatim>\<open>start_engine\<close>, and
  every worker transmits the payload the caller supplies. \<^verbatim>\<open>start_engine\<close> has one
  parameter, the address pool, and stores the literal \<^verbatim>\<open>"abc"\<close> with length 3 in the
  arguments of every thread: on \<open>pool3\<close> with two processors both workers carry
  \<^verbatim>\<open>"abc"\<close>, which is not what an engine given the payload \<^verbatim>\<open>"hello"\<close> would carry.
\<close>

theorem start_engine_ignores_caller_payload:
  "start_engine esys2 pool3 =
     Inr (6, [Stderr (Using_available_CPUs 2)], [loop_args pool3 5 0, loop_args pool3 5 1]) \<and>
   map sample_data [loop_args pool3 5 0, loop_args pool3 5 1] = [''abc'', ''abc''] \<and>
   start_engine esys2 pool3 \<noteq> start_engine_with_payload esys2 pool3 ''hello'' 5"
  by (simp add: start_engine_esys2 start_engine_with_payload_def) (simp add: loop_args_def)

lemma payload_fixed_start_new_connection:
  assumes "payload_fixed w" "start_new_connection sys w = Inr (out, w')"
  shows "payload_fixed w'"
  using assms(2)
proof (cases rule: start_new_connection_cases)
  case (abandoned off la)
  with assms(1) pick_remote_address_fields(3,4) [OF abandoned(1)] show ?thesis
    by (simp add: payload_fixed_def count_attempt_def)
next
  case (failed off la sockfd e)
  with assms(1) pick_remote_address_fields(3,4) [OF failed(1)] show ?thesis
    by (simp add: payload_fixed_def count_attempt_def count_failure_def)
next
  case (registered off la sockfd)
  with assms(1) pick_remote_address_fields(3,4) [OF registered(1)] show ?thesis
    by (simp add: payload_fixed_def count_attempt_def register_connection_def)
qed

lemma start_new_connection_writes_nothing:
  assumes "start_new_connection sys w = Inr (out, w')"
  shows "Write fd bytes \<notin> set out"
proof -
  obtain off la where p: "pick_remote_address (userdata w) = (off, la)"
    by (cases "pick_remote_address (userdata w)") blast
  with assms show ?thesis
    by (auto simp: start_new_connection_def Let_def split: if_splits sum.splits option.splits)
qed

lemma payload_fixed_control_cb:
  assumes "payload_fixed w" "control_cb sys w = Inr (out, w')"
  shows "payload_fixed w' \<and> Write fd bytes \<notin> set out"
proof (cases "sys_read sys")
  case None
  with assms show ?thesis by (auto simp: control_cb_def)
next
  case (Some c)
  show ?thesis
  proof (cases "c = CHR ''c''")
    case True
    with assms Some payload_fixed_start_new_connection [of w sys out w']
      start_new_connection_writes_nothing [of sys w out w' fd bytes] show ?thesis
      by (simp add: control_cb_def)
  next
    case False
    with assms Some show ?thesis
      by (auto simp: control_cb_def payload_fixed_def split: if_splits)
  qed
qed

lemma connection_cb_writes_payload:
  assumes "connection_cb revents sys_write i w = (out, w')" "Write fd bytes \<in> set out"
  shows "\<exists>k s. bytes = take k (drop s (sample_data (userdata w)))"
proof -
  obtain off position available_length where ch:
    "largest_contiguous_chunk (userdata w) (write_offset (conns w ! i)) = (off, position, available_length)"
    by (cases "largest_contiguous_chunk (userdata w) (write_offset (conns w ! i))") blast
  show ?thesis
  proof (cases sys_write)
    case (Inl e)
    with assms ch have False
      by (auto simp: connection_cb_def Let_def split: if_splits)
    then show ?thesis ..
  next
    case (Inr wrote)
    with assms ch
    have "bytes = take (unat wrote) (drop (unat position) (sample_data (userdata w)))"
      by (auto simp: connection_cb_def Let_def split: if_splits)
    then show ?thesis by blast
  qed
qed

lemma payload_fixed_connection_cb:
  assumes "payload_fixed w" "connection_cb revents sys_write i w = (out, w')"
  shows "payload_fixed w'"
  using assms(2)
proof (cases rule: connection_cb_cases)
  case torn_down
  with assms(1) show ?thesis by (simp add: payload_fixed_def close_connection_def)
next
  case (peer_closed la1)
  with assms(1) show ?thesis by (simp add: payload_fixed_def close_connection_def count_failure_def)
next
  case (kept c)
  with assms(1) show ?thesis by (simp add: payload_fixed_def)
next
  case idle
  with assms(1) show ?thesis by simp
qed

lemma payload_fixed_dispatch:
  assumes "payload_fixed w" "dispatch ev w = Inr (out, w')"
  shows "payload_fixed w' \<and>
         (Write fd bytes \<in> set out \<longrightarrow> (\<exists>k s. bytes = take k (drop s ''abc'')))"
proof (cases ev)
  case (Control_ready sys)
  with assms payload_fixed_control_cb [of w sys out w' fd bytes] show ?thesis
    by (auto split: if_splits)
next
  case (Connection_ready i revents sys_write)
  with assms payload_fixed_connection_cb [of w revents sys_write i out w']
    connection_cb_writes_payload [of revents sys_write i w out w' fd bytes]
  show ?thesis
    by (auto simp: payload_fixed_def split: if_splits)
qed

lemma payload_fixed_ev_run:
  assumes "payload_fixed w" "ev_run evs w = Inr (out, w')"
  shows "payload_fixed w' \<and>
         (Write fd bytes \<in> set out \<longrightarrow> (\<exists>k s. bytes = take k (drop s ''abc'')))"
  using assms
proof (induction evs arbitrary: w out)
  case Nil
  then show ?case by simp
next
  case (Cons ev evs)
  from Cons.prems(2) obtain out1 w1 out2 where
    s: "dispatch ev w = Inr (out1, w1)" "ev_run evs w1 = Inr (out2, w')" "out = out1 @ out2"
    by (rule ev_run_Cons_Inr)
  from payload_fixed_dispatch [OF Cons.prems(1) s(1)] have
    d: "payload_fixed w1" "Write fd bytes \<in> set out1 \<longrightarrow> (\<exists>k s. bytes = take k (drop s ''abc''))"
    by simp_all
  from Cons.IH [OF d(1) s(2)] d(2) s(3) show ?case by auto
qed

text \<open>
  Claim C3, amended. \<^verbatim>\<open>start_engine\<close> receives the address pool only. Every worker it
  creates is given that pool and the three-byte payload \<^verbatim>\<open>"abc"\<close>, fixed inside
  \<^verbatim>\<open>start_engine\<close> (it is the engine of the specification at that one payload); in
  every state the worker reaches the payload and its length are still those, and every
  sequence of bytes it writes to a socket is a contiguous piece of \<^verbatim>\<open>"abc"\<close>.
\<close>

theorem start_engine_payload_is_fixed:
  assumes "start_engine esys pool = Inr (wr_pipe, out0, las)"
  shows "start_engine_with_payload esys pool ''abc'' 3 = start_engine esys pool \<and>
         (\<forall>la \<in> set las. addresses la = pool \<and> sample_data la = ''abc'' \<and> sample_data_size la = 3 \<and>
            (\<forall>evs out w. ev_run evs (single_engine_loop_thread la) = Inr (out, w) \<longrightarrow>
               sample_data (userdata w) = ''abc'' \<and> sample_data_size (userdata w) = 3 \<and>
               (\<forall>fd bytes. Write fd bytes \<in> set out \<longrightarrow>
                  (\<exists>k s. bytes = take k (drop s ''abc'')))))"
proof -
  have fixed: "addresses la = pool \<and> sample_data la = ''abc'' \<and> sample_data_size la = 3"
    if "la \<in> set las" for la
  proof -
    from start_engine_threads [OF assms that] obtain n where
      "la = loop_args pool (fst (sys_pipe_fildes esys)) n" by blast
    then show ?thesis by (simp add: loop_args_def)
  qed
  have "map (\<lambda>la. la\<lparr>sample_data := ''abc'', sample_data_size := 3\<rparr>) las = las"
  proof (rule map_idI)
    fix la assume "la \<in> set las"
    from fixed [OF this] show "la\<lparr>sample_data := ''abc'', sample_data_size := 3\<rparr> = la"
      by (cases la) simp
  qed
  with assms have same: "start_engine_with_payload esys pool ''abc'' 3 = start_engine esys pool"
    by (simp add: start_engine_with_payload_def)
  have run: "sample_data (userdata w) = ''abc'' \<and> sample_data_size (userdata w) = 3 \<and>
               (\<forall>fd bytes. Write fd bytes \<in> set out \<longrightarrow>
                  (\<exists>k s. bytes = take k (drop s ''abc'')))"
    if "la \<in> set las" "ev_run evs (single_engine_loop_thread la) = Inr (out, w)" for la evs out w
  proof -
    from fixed [OF that(1)] have "payload_fixed (single_engine_loop_thread la)"
      by (simp add: payload_fixed_def single_engine_loop_thread_def)
    from payload_fixed_ev_run [OF this that(2)] show ?thesis
      by (simp add: payload_fixed_def)
  qed
  from same fixed run show ?thesis by blast
qed

theorem start_engine_payload_is_fixed_witness:
  "start_engine esys2 pool3 =
     Inr (6, [Stderr (Using_available_CPUs 2)], [loop_args pool3 5 0, loop_args pool3 5 1]) \<and>
   start_engine_with_payload esys2 pool3 ''abc'' 3 = start_engine esys2 pool3 \<and>
   sample_data (loop_args pool3 5 1) = ''abc'' \<and> sample_data_size (loop_args pool3 5 1) = 3"
proof -
  have m: "loop_args pool3 5 1 \<in> set [loop_args pool3 5 0, loop_args pool3 5 1]" by simp
  from start_engine_payload_is_fixed [OF start_engine_esys2] m start_engine_esys2
  show ?thesis by blast
qed

section \<open>Address selection and the range of the cursor\<close>

lemma candidate_no_wrap:
  assumes "unat (address_offset la) + j < 2 ^ 32"
  shows "candidate la j = (unat (address_offset la) + j) mod n_addrs (addresses la)"
proof -
  from assms have j: "j < 2 ^ 32" by simp
  then have "unat (of_nat j :: 32 word) = j" by (simp add: unat_of_nat)
  with assms have "unat (address_offset la + of_nat j) = unat (address_offset la) + j"
    by (simp add: unat_add_lem [THEN iffD1])
  then show ?thesis by (simp add: candidate_def)
qed

lemma residue_reached:
  fixes c N i :: nat
  assumes "i < N"
  shows "\<exists>j<N. (c + j) mod N = i"
proof -
  let ?j = "(i + (N - c mod N)) mod N"
  from assms have N: "0 < N" by simp
  then have r: "c mod N < N" by simp
  have "c + (i + (N - c mod N)) = (c div N) * N + (c mod N + (N - c mod N)) + i"
    by (simp add: algebra_simps)
  also have "\<dots> = (c div N) * N + N + i" using r by simp
  finally have "c + (i + (N - c mod N)) = (c div N) * N + N + i" .
  then have "(c + (i + (N - c mod N))) mod N = ((c div N) * N + N + i) mod N"
    by (rule arg_cong)
  also have "\<dots> = i mod N" by (simp add: add.assoc)
  also have "\<dots> = i" using assms by simp
  finally have "(c + (i + (N - c mod N))) mod N = i" .
  then have "(c + ?j) mod N = i" by (simp add: mod_add_right_eq)
  moreover from N have "?j < N" by simp
  ultimately show ?thesis by blast
qed

text \<open>
  While the cursor does not pass \<open>2^32\<close> inside the scan, the candidates are \<open>N\<close>
  consecutive residues, every entry is examined unless the scan stops before it, and the
  entry returned is not skip-eligible whenever some entry is not.
\<close>

lemma pick_remote_address_avoids_dead_without_wrap:
  assumes ok: "table_ok la"
    and nowrap: "unat (address_offset la) + n_addrs (addresses la) \<le> 2 ^ 32"
    and alive: "i < n_addrs (addresses la)" "\<not> skip_eligible (remote_stats la ! i)"
  shows "\<not> skip_eligible (remote_stats la ! fst (pick_remote_address la))"
proof
  let ?N = "n_addrs (addresses la)"
  assume dead: "skip_eligible (remote_stats la ! fst (pick_remote_address la))"
  from ok have pos: "0 < ?N" by (simp add: table_ok_def)
  obtain off' la' where run: "pick_scan ?N 0 la = (off', la')"
    by (cases "pick_scan ?N 0 la") blast
  from pick_scan_stops [OF pos run] obtain m where m: "m < ?N" "off' = candidate la m"
    "\<forall>j<m. skip_eligible (remote_stats la ! candidate la j)"
    "skip_eligible (remote_stats la ! candidate la m) \<longrightarrow> Suc m = ?N"
    by blast
  from run m(2) dead have dm: "skip_eligible (remote_stats la ! candidate la m)"
    by (simp add: pick_remote_address_def)
  with m(4) have last: "Suc m = ?N" by simp
  from residue_reached [OF alive(1), of "unat (address_offset la)"] obtain j where
    j: "j < ?N" "(unat (address_offset la) + j) mod ?N = i" by blast
  with nowrap have "candidate la j = i" by (simp add: candidate_no_wrap)
  moreover from j(1) last m(3) dm have "skip_eligible (remote_stats la ! candidate la j)"
    by (cases "j = m") auto
  ultimately show False using alive(2) by simp
qed

lemma unat_succ:
  fixes c :: "32 word"
  assumes "unat c + n < 2 ^ 32"
  shows "unat (c + of_nat n) = unat c + n"
proof -
  from assms have "n < 2 ^ 32" by simp
  then have "unat (of_nat n :: 32 word) = n" by (simp add: unat_of_nat)
  with assms show ?thesis by (simp add: unat_add_lem [THEN iffD1])
qed

lemma probing_start: "w_start = probing 0 0 0 0"
  by (simp add: pool3_def fresh_def loop_args_def w_start_def sys_connecting_def
      single_engine_loop_thread_def probing_def replicate3)

text \<open>The cursor stands on an entry that is not skipped.\<close>

lemma pick_probing_first:
  assumes "unat c mod 3 = i" "\<not> skip_eligible (remote_stats (userdata (probing a0 a1 a2 c)) ! i)"
  shows "pick_remote_address (userdata (probing a0 a1 a2 c))
           = (i, (userdata (probing a0 a1 a2 c))\<lparr>address_offset := c + 1\<rparr>)"
  using assms
  by (simp add: probing_def loop_args_def pool3_def pick_remote_address_def pick_scan_numeral
      Let_def)

lemma refused_0:
  assumes "unat c mod 3 = 0" "a0 \<le> 10"
  shows "\<exists>out. dispatch (Control_ready sys_refused) (probing a0 a1 a2 c)
           = Inr (out, probing (a0 + 1) a1 a2 (c + 1))"
proof -
  from assms(2) have "\<not> skip_eligible (remote_stats (userdata (probing a0 a1 a2 c)) ! 0)"
    by (simp add: probing_def skip_eligible_def)
  from pick_probing_first [OF assms(1) this] show ?thesis
    by (simp add: control_cb_def start_new_connection_def sys_refused_def sys_connecting_def count_attempt_def
        count_failure_def)
       (simp add: probing_def loop_args_def pool3_def)
qed

lemma emfile_1:
  assumes "unat c mod 3 = 1"
  shows "dispatch (Control_ready sys_emfile) (probing a0 a1 a2 c)
           = Inr ([], probing a0 (a1 + 1) a2 (c + 1))"
proof -
  have "\<not> skip_eligible (remote_stats (userdata (probing a0 a1 a2 c)) ! 1)"
    by (simp add: probing_def skip_eligible_def)
  from pick_probing_first [OF assms this] show ?thesis
    by (simp add: control_cb_def start_new_connection_def sys_connecting_def sys_emfile_def
        count_attempt_def)
       (simp add: probing_def loop_args_def pool3_def)
qed

lemma refused_2:
  assumes "unat c mod 3 = 2" "a2 \<le> 10"
  shows "\<exists>out. dispatch (Control_ready sys_refused) (probing a0 a1 a2 c)
           = Inr (out, probing a0 a1 (a2 + 1) (c + 1))"
proof -
  from assms(2) have "\<not> skip_eligible (remote_stats (userdata (probing a0 a1 a2 c)) ! 2)"
    by (simp add: probing_def skip_eligible_def)
  from pick_probing_first [OF assms(1) this] show ?thesis
    by (simp add: control_cb_def start_new_connection_def sys_refused_def sys_connecting_def count_attempt_def
        count_failure_def)
       (simp add: probing_def loop_args_def pool3_def)
qed

text \<open>One round over the three addresses, while the first and the third are still tried.\<close>

lemma round3_run:
  assumes "unat c mod 3 = 0" "unat c + 3 < 2 ^ 32" "a \<le> 10"
  shows "\<exists>out. ev_run round3 (probing a a a c) = Inr (out, probing (a + 1) (a + 1) (a + 1) (c + 3))"
proof -
  from assms(2) unat_succ [of c 1] unat_succ [of c 2]
  have u: "unat (c + 1) = unat c + 1" "unat (c + 2) = unat c + 2" by simp_all
  with assms(1) have m: "unat (c + 1) mod 3 = 1" "unat (c + 1 + 1) mod 3 = 2"
    by (simp_all add: add.assoc) presburger+
  from refused_0 [OF assms(1,3)] obtain o1 where
    s1: "dispatch (Control_ready sys_refused) (probing a a a c) = Inr (o1, probing (a + 1) a a (c + 1))"
    by blast
  note s2 = emfile_1 [OF m(1), of "a + 1" a a]
  from refused_2 [OF m(2) assms(3)] obtain o3 where
    s3: "dispatch (Control_ready sys_refused) (probing (a + 1) (a + 1) a (c + 1 + 1))
           = Inr (o3, probing (a + 1) (a + 1) (a + 1) (c + 1 + 1 + 1))"
    by blast
  have "c + 1 + 1 + 1 = c + 3" by simp
  with s1 s2 s3 show ?thesis by (simp add: round3_def add.commute del: dispatch.simps)
qed

lemma ev_run_append:
  assumes "ev_run xs w = Inr (o1, w1)" "ev_run ys w1 = Inr (o2, w2)"
  shows "ev_run (xs @ ys) w = Inr (o1 @ o2, w2)"
  using assms
proof (induction xs arbitrary: w o1)
  case Nil
  then show ?case by simp
next
  case (Cons x xs)
  from Cons.prems(1) obtain out1 wa out2 where
    s: "dispatch x w = Inr (out1, wa)" "ev_run xs wa = Inr (out2, w1)" "o1 = out1 @ out2"
    by (rule ev_run_Cons_Inr)
  from Cons.IH [OF s(2) Cons.prems(2)] s(1,3) show ?case by simp
qed

lemma rounds_run:
  assumes "n \<le> 11"
  shows "\<exists>out. ev_run (concat (replicate n round3)) (probing 0 0 0 0)
           = Inr (out, probing (int n) (int n) (int n) (of_nat (3 * n)))"
  using assms
proof (induction n)
  case 0
  then show ?case by simp
next
  case (Suc n)
  then obtain o1 where
    a: "ev_run (concat (replicate n round3)) (probing 0 0 0 0)
           = Inr (o1, probing (int n) (int n) (int n) (of_nat (3 * n)))"
    by auto
  from Suc.prems have "3 * n < 2 ^ 32" by simp
  moreover have "unat (of_nat (3 * n) :: 32 word) = 3 * n mod 2 ^ LENGTH(32)"
    by (rule unat_of_nat)
  ultimately have u: "unat (of_nat (3 * n) :: 32 word) = 3 * n" by simp
  from Suc.prems have "unat (of_nat (3 * n) :: 32 word) mod 3 = 0"
    "unat (of_nat (3 * n) :: 32 word) + 3 < 2 ^ 32" "int n \<le> 10"
    by (simp_all only: u) simp_all
  from round3_run [OF this] obtain o2 where
    b: "ev_run round3 (probing (int n) (int n) (int n) (of_nat (3 * n)))
          = Inr (o2, probing (int n + 1) (int n + 1) (int n + 1) (of_nat (3 * n) + 3))"
    by blast
  have "replicate (Suc n) round3 = replicate n round3 @ [round3]"
    by (simp add: replicate_append_same)
  then have "concat (replicate (Suc n) round3) = concat (replicate n round3) @ round3"
    by (simp only: concat_append) simp
  moreover have "(of_nat (3 * n) + 3 :: 32 word) = of_nat (3 * Suc n)" by simp
  moreover have "int n + 1 = int (Suc n)" by simp
  ultimately show ?case using ev_run_append [OF a b] by (simp only:) blast
qed

text \<open>The cursor stands on a dead entry and the scan moves on to the second address.\<close>

lemma emfile_skip_from_0:
  assumes "unat c mod 3 = 0" "unat c + 2 < 2 ^ 32" "10 < a0"
  shows "dispatch (Control_ready sys_emfile) (probing a0 a1 a2 c)
           = Inr ([], probing a0 (a1 + 1) a2 (c + 2))"
proof -
  from assms(2) unat_succ [of c 1] have "unat (c + 1) = unat c + 1" by simp
  with assms(1) have m: "unat (c + 1) mod 3 = 1" by presburger
  have "c + 1 + 1 = c + 2" by simp
  with assms(1,3) m show ?thesis
    by (simp add: control_cb_def start_new_connection_def sys_connecting_def sys_emfile_def
        loop_args_def pool3_def
        count_attempt_def probing_def pick_remote_address_def pick_scan_numeral Let_def
        skip_eligible_def)
qed

lemma emfile_skip_from_2:
  assumes "unat c mod 3 = 2" "unat c + 3 < 2 ^ 32" "10 < a0" "10 < a2"
  shows "dispatch (Control_ready sys_emfile) (probing a0 a1 a2 c)
           = Inr ([], probing a0 (a1 + 1) a2 (c + 3))"
proof -
  from assms(2) unat_succ [of c 1] unat_succ [of c 2]
  have "unat (c + 1) = unat c + 1" "unat (c + 2) = unat c + 2" by simp_all
  with assms(1) have m: "unat (c + 1) mod 3 = 0" "unat (c + 2) mod 3 = 1" by presburger+
  have e: "c + 1 + 1 = c + 2" "c + 2 + 1 = c + 3" by simp_all
  from assms(1,3,4) m show ?thesis
    by (simp add: control_cb_def start_new_connection_def sys_connecting_def sys_emfile_def
        loop_args_def pool3_def
        count_attempt_def probing_def pick_remote_address_def pick_scan_numeral Let_def
        skip_eligible_def e)
qed

lemma starve_run:
  assumes "unat c mod 3 = 2" "unat c + 3 * k < 2 ^ 32" "10 < a0" "10 < a2"
  shows "ev_run (replicate k (Control_ready sys_emfile)) (probing a0 a1 a2 c)
           = Inr ([], probing a0 (a1 + int k) a2 (c + of_nat (3 * k)))"
  using assms
proof (induction k arbitrary: a1 c)
  case 0
  then show ?case by simp
next
  case (Suc k)
  from Suc.prems(2) have lt: "unat c + 3 < 2 ^ 32" by simp
  note s = emfile_skip_from_2 [OF Suc.prems(1) lt Suc.prems(3,4), of a1]
  from lt unat_succ [of c 3] have u: "unat (c + 3) = unat c + 3" by simp
  with Suc.prems(1) have m: "unat (c + 3) mod 3 = 2" by presburger
  from u Suc.prems(2) have b: "unat (c + 3) + 3 * k < 2 ^ 32" by simp
  from Suc.IH [OF m b Suc.prems(3,4), of "a1 + 1"]
  have r: "ev_run (replicate k (Control_ready sys_emfile)) (probing a0 (a1 + 1) a2 (c + 3))
           = Inr ([], probing a0 (a1 + 1 + int k) a2 (c + 3 + of_nat (3 * k)))" .
  have "a1 + 1 + int k = a1 + int (Suc k)" "c + 3 + of_nat (3 * k) = c + of_nat (3 * Suc k)"
    by simp_all
  with s r show ?case by (simp add: add.assoc del: dispatch.simps)
qed

lemma wrap_history_run: "\<exists>out. ev_run wrap_history w_start = Inr (out, w_wrap)"
proof -
  from rounds_run [of 11] obtain o1 where
    a: "ev_run (concat (replicate 11 round3)) (probing 0 0 0 0) = Inr (o1, probing 11 11 11 33)"
    by auto
  have b: "dispatch (Control_ready sys_emfile) (probing 11 11 11 33) = Inr ([], probing 11 12 11 35)"
    using emfile_skip_from_0 [of 33 11 11 11] by simp
  have c: "ev_run (replicate 1431655753 (Control_ready sys_emfile)) (probing 11 12 11 35)
      = Inr ([], probing 11 1431655765 11 4294967294)"
    using starve_run [of 35 1431655753 11 11 12] by simp
  from b c have "ev_run (Control_ready sys_emfile # replicate 1431655753 (Control_ready sys_emfile))
      (probing 11 11 11 33) = Inr ([], probing 11 1431655765 11 4294967294)"
    by (simp del: dispatch.simps)
  from ev_run_append [OF a this] show ?thesis
    by (simp add: wrap_history_def w_wrap_def probing_start)
qed

text \<open>
  Claim C1. \<^verbatim>\<open>pick_remote_address\<close> never returns a skip-eligible entry when some
  entry of the table is not skip-eligible. The cursor is an \<^verbatim>\<open>unsigned int\<close> that is
  only ever incremented; when it passes \<open>2^32 - 1\<close> inside a scan and \<open>N\<close> does not
  divide \<open>2^32\<close>, the candidates of the scan are no longer \<open>N\<close> consecutive residues.
  The worker \<open>w_wrap\<close> is reached from the start of thread 0 by \<open>wrap_history\<close>; its
  pool has three addresses, its cursor stands at \<open>2^32 - 2\<close>, and its second entry is not
  skip-eligible. Its next scan examines the entries 2, 0 and 0 again, never entry 1, and
  returns entry 0, which is skip-eligible.
\<close>

theorem pick_remote_address_wrap_returns_dead:
  "(\<exists>out. ev_run wrap_history w_start = Inr (out, w_wrap)) \<and>
   n_addrs (addresses (userdata w_wrap)) = 3 \<and> length (remote_stats (userdata w_wrap)) = 3 \<and>
   address_offset (userdata w_wrap) = 4294967294 \<and>
   \<not> skip_eligible (remote_stats (userdata w_wrap) ! 1) \<and>
   map (candidate (userdata w_wrap)) [0, 1, 2] = [2, 0, 0] \<and>
   pick_remote_address (userdata w_wrap) = (0, (userdata w_wrap)\<lparr>address_offset := 1\<rparr>) \<and>
   skip_eligible (remote_stats (userdata w_wrap) ! 0)"
  by (intro conjI, rule wrap_history_run)
     (simp_all add: w_wrap_def probing_def loop_args_def pool3_def pick_remote_address_def
       pick_scan_numeral Let_def skip_eligible_def candidate_def)

end
